theory Spec2Isabelle
  imports Main "HOL-Library.Sublist" "HOL-Library.Multiset" "HOL-Library.Monad_Syntax" "HOL-Library.Word"
begin

section \<open>Errors\<close>

text \<open>
  Go error values.  \<open>ExitError msg stderr\<close> is \<open>*exec.ExitError\<close> (its message and the
  captured \<open>Stderr\<close>), \<open>Wrapped msg e\<close> is what \<open>fmt.Errorf\<close> builds for a format with
  \<open>%w\<close> (the formatted message and the wrapped error), \<open>CorruptInputError\<close> is the error of
  \<open>encoding/base64\<close> (its byte offset is left out), \<open>ErrorString\<close> is every other error.
\<close>

datatype error =
    ErrorString string
  | ExitError string string
  | Wrapped string error
  | CorruptInputError

fun Error :: "error \<Rightarrow> string" where
  "Error (ErrorString m) = m"
| "Error (ExitError m stderr) = m"
| "Error (Wrapped m e) = m"
| "Error CorruptInputError = ''illegal base64 data''"

text \<open>\<open>errors.As(err, &eerr)\<close> with \<open>eerr\<close> of type \<open>*exec.ExitError\<close>: the first exit
  error on the chain of wrapped errors; the result is its \<open>Stderr\<close>.\<close>

fun asExitError :: "error \<Rightarrow> string option" where
  "asExitError (ExitError m stderr) = Some stderr"
| "asExitError (Wrapped m e) = asExitError e"
| "asExitError (ErrorString m) = None"
| "asExitError CorruptInputError = None"

section \<open>Strings of the Go standard library\<close>

text \<open>A Go string is a sequence of bytes: \<open>string\<close>, a list of 8-bit characters.\<close>

text \<open>The UTF-8 encodings of the code points with the Unicode property White_Space, which
  is what \<open>unicode.IsSpace\<close> accepts: U+0009..U+000D, U+0020, U+0085, U+00A0, U+1680,
  U+2000..U+200A, U+2028, U+2029, U+202F, U+205F, U+3000.\<close>

definition spaces :: "string list" where
  "spaces =
    [[CHR 0x09], [CHR 0x0A], [CHR 0x0B], [CHR 0x0C], [CHR 0x0D], [CHR 0x20],
     [CHR 0xC2, CHR 0x85], [CHR 0xC2, CHR 0xA0],
     [CHR 0xE1, CHR 0x9A, CHR 0x80],
     [CHR 0xE2, CHR 0x80, CHR 0x80], [CHR 0xE2, CHR 0x80, CHR 0x81],
     [CHR 0xE2, CHR 0x80, CHR 0x82], [CHR 0xE2, CHR 0x80, CHR 0x83],
     [CHR 0xE2, CHR 0x80, CHR 0x84], [CHR 0xE2, CHR 0x80, CHR 0x85],
     [CHR 0xE2, CHR 0x80, CHR 0x86], [CHR 0xE2, CHR 0x80, CHR 0x87],
     [CHR 0xE2, CHR 0x80, CHR 0x88], [CHR 0xE2, CHR 0x80, CHR 0x89],
     [CHR 0xE2, CHR 0x80, CHR 0x8A],
     [CHR 0xE2, CHR 0x80, CHR 0xA8], [CHR 0xE2, CHR 0x80, CHR 0xA9],
     [CHR 0xE2, CHR 0x80, CHR 0xAF],
     [CHR 0xE2, CHR 0x81, CHR 0x9F],
     [CHR 0xE3, CHR 0x80, CHR 0x80]]"

text \<open>The number of bytes of the white-space rune a string starts with (ends with), 0 when
  it starts (ends) with none.\<close>

definition leadingSpace :: "string \<Rightarrow> nat" where
  "leadingSpace s = (case find (\<lambda>p. prefix p s) spaces of None \<Rightarrow> 0 | Some p \<Rightarrow> length p)"

definition trailingSpace :: "string \<Rightarrow> nat" where
  "trailingSpace s = (case find (\<lambda>p. suffix p s) spaces of None \<Rightarrow> 0 | Some p \<Rightarrow> length p)"

lemma leadingSpace_le: "leadingSpace s \<le> length s"
  by (auto simp: leadingSpace_def prefix_length_le find_Some_iff split: option.splits)

lemma trailingSpace_le: "trailingSpace s \<le> length s"
  by (auto simp: trailingSpace_def suffix_length_le find_Some_iff split: option.splits)

function TrimLeftSpace :: "string \<Rightarrow> string" where
  "TrimLeftSpace s =
     (if leadingSpace s = 0 then s else TrimLeftSpace (drop (leadingSpace s) s))"
  by pat_completeness auto
termination
proof (relation "measure length")
  show "wf (measure length)" by simp
next
  fix s :: string
  assume "leadingSpace s \<noteq> 0"
  moreover have "leadingSpace s \<le> length s" by (rule leadingSpace_le)
  ultimately show "(drop (leadingSpace s) s, s) \<in> measure length" by simp
qed

function TrimRightSpace :: "string \<Rightarrow> string" where
  "TrimRightSpace s =
     (if trailingSpace s = 0 then s
      else TrimRightSpace (take (length s - trailingSpace s) s))"
  by pat_completeness auto
termination
proof (relation "measure length")
  show "wf (measure length)" by simp
next
  fix s :: string
  assume "trailingSpace s \<noteq> 0"
  moreover have "trailingSpace s \<le> length s" by (rule trailingSpace_le)
  ultimately show "(take (length s - trailingSpace s) s, s) \<in> measure length" by simp
qed

declare TrimLeftSpace.simps [simp del] TrimRightSpace.simps [simp del]

text \<open>\<open>strings.TrimSpace\<close>: all leading and trailing white space removed.\<close>

definition TrimSpace :: "string \<Rightarrow> string" where
  "TrimSpace s = TrimRightSpace (TrimLeftSpace s)"

text \<open>\<open>strings.TrimPrefix\<close>.\<close>

definition TrimPrefix :: "string \<Rightarrow> string \<Rightarrow> string" where
  "TrimPrefix s p = (if prefix p s then drop (length p) s else s)"

text \<open>\<open>filepath.Base\<close> with the separator \<open>/\<close>: the last element of the path, after the
  trailing slashes are removed; \<open>.\<close> for the empty path, \<open>/\<close> for a path of slashes only.\<close>

definition Base :: "string \<Rightarrow> string" where
  "Base path =
     (if path = [] then ''.''
      else let stripped = rev (dropWhile (\<lambda>c. c = CHR ''/'') (rev path));
               elem = rev (takeWhile (\<lambda>c. c \<noteq> CHR ''/'') (rev stripped))
           in if elem = [] then ''/'' else elem)"

section \<open>The command-output reader\<close>

text \<open>
  \<open>command.Read\<close>.  The command is its \<open>Path\<close>; \<open>output\<close> is what \<open>cmd.Output()\<close>
  returned (the bytes of the standard output, or an error), \<open>FromBytes\<close> is
  \<open>kio.FromBytes\<close> of kyaml, which parses the documents.
\<close>

record command =
  Path :: string

definition command_Read ::
  "(string \<Rightarrow> error + 'n list) \<Rightarrow> command \<Rightarrow> error + string \<Rightarrow> error + 'n list" where
  "command_Read FromBytes cmd output =
     (case output of
        Inl err \<Rightarrow>
          (case asExitError err of
             Some stderr \<Rightarrow>
               (let msg = TrimSpace stderr;
                    msg = TrimPrefix msg ''Error: ''
                in Inl (Wrapped (Base (Path cmd) @ '' '' @ Error err @ '': '' @ msg) err))
           | None \<Rightarrow> Inl err)
      | Inr out \<Rightarrow> FromBytes out)"

section \<open>Documents\<close>

text \<open>
  \<open>yaml.Node\<close> with the fields this code reads and writes.  \<open>Line\<close> is a Go \<open>int\<close>: a
  signed integer of 64 bits whose sums and differences wrap around, and whose order is
  the signed one (\<open><s\<close>, \<open>\<le>s\<close>).
\<close>

datatype Kind = DocumentNode | SequenceNode | MappingNode | ScalarNode | AliasNode

datatype Node = Node (Kind: Kind) (Value: string) (HeadComment: string) (FootComment: string)
  (Line: "64 word") (Content: "Node list")

text \<open>The assignment \<open>n.HeadComment = h\<close>.\<close>

definition setHeadComment :: "string \<Rightarrow> Node \<Rightarrow> Node" where
  "setHeadComment h n = Node (Kind n) (Value n) h (FootComment n) (Line n) (Content n)"

text \<open>
  An \<open>*yaml.RNode\<close> of kyaml is a handle on a document; \<open>YNode\<close> is the node its
  \<open>YNode()\<close> method returns.  Documents are values here: where the Go code changes a node
  through the pointer, the model returns the changed document.
\<close>

record RNode =
  YNode :: Node

text \<open>\<open>yaml.NewRNode\<close>: the \<open>YNode()\<close> of a document node is its first content node, of any
  other node the node itself.\<close>

definition NewRNode :: "Node \<Rightarrow> RNode" where
  "NewRNode v =
     \<lparr>YNode = (if Kind v = DocumentNode \<and> Content v \<noteq> [] then hd (Content v) else v)\<rparr>"

text \<open>\<open>strings.Count(s, sep)\<close> and \<open>strings.Repeat(sep, k)\<close> for a separator of one byte
  (the code passes a newline); \<open>Repeat\<close> is only called with \<open>k > 0\<close>.  \<open>Count\<close> is the number
  of occurrences; as a Go \<open>int\<close> it is \<open>of_int (Count s c)\<close>.\<close>

definition Count :: "string \<Rightarrow> char \<Rightarrow> int" where
  "Count s c = int (length (filter (\<lambda>x. x = c) s))"

definition Repeat :: "char \<Rightarrow> int \<Rightarrow> string" where
  "Repeat c k = replicate (nat k) c"

section \<open>The vertical white space restorer\<close>

text \<open>\<open>lastLine\<close>: the largest line number of the node and of all nodes below it.\<close>

fun lastLine :: "Node \<Rightarrow> 64 word" where
  "lastLine (Node k v h f l cs) =
     foldl (\<lambda>line ll. if line <s ll then ll else line) l (map lastLine cs)"

text \<open>
  The inner loop of \<open>restoreVerticalWhiteSpace\<close> from index \<open>i\<close> on: \<open>kind\<close> is \<open>n.Kind\<close>,
  \<open>cs\<close> is \<open>n.Content\<close> as changed so far, \<open>minLL\<close> the variable of that name.
  \<open>i-2 >= 0\<close> is \<open>2 \<le> i\<close>.  \<open>ll\<close> is a Go \<open>int\<close>: every \<open>-=\<close> wraps, \<open>cll > minLL\<close> and \<open>ll <= 0\<close>
  compare as signed numbers, and \<open>strings.Repeat\<close> gets the signed value of \<open>ll\<close>.
\<close>

function restoreFrom :: "Kind \<Rightarrow> nat \<Rightarrow> 64 word \<Rightarrow> Node list \<Rightarrow> Node list" where
  "restoreFrom kind i minLL cs =
     (if length cs \<le> i then cs
      else if i = 0 \<or> Line (cs ! i) = Line (cs ! (i - 1)) then restoreFrom kind (i + 1) minLL cs
      else
        let ll = Line (cs ! i) - 1;
            ll = (if length (HeadComment (cs ! i)) > 0
                  then ll - (of_int (Count (HeadComment (cs ! i)) (CHR 0x0A)) + 1) else ll);
            cll = lastLine (cs ! (i - 1));
            minLL = (if minLL <s cll then cll else minLL);
            ll = ll - minLL;
            footComment = FootComment (cs ! (i - 1));
            footComment = (if footComment = [] \<and> kind = MappingNode \<and> 2 \<le> i
                           then FootComment (cs ! (i - 2)) else footComment);
            ll = (if length footComment > 0
                  then ll - (of_int (Count footComment (CHR 0x0A)) + 2) else ll)
        in if ll \<le>s 0 then restoreFrom kind (i + 1) minLL cs
           else restoreFrom kind (i + 1) minLL
                  (cs[i := setHeadComment (Repeat (CHR 0x0A) (sint ll) @ HeadComment (cs ! i))
                             (cs ! i)]))"
  by pat_completeness auto
termination
  by (relation "measure (\<lambda>(kind, i, minLL, cs). length cs - i)") (auto simp: Let_def)

declare restoreFrom.simps [simp del]

text \<open>The body of the outer loop, for one document node \<open>n = node.YNode()\<close>.\<close>

definition restoreNode :: "Node \<Rightarrow> Node" where
  "restoreNode n =
     Node (Kind n) (Value n) (HeadComment n) (FootComment n) (Line n)
       (restoreFrom (Kind n) 0 (Line n) (Content n))"

definition restoreVerticalWhiteSpace :: "RNode list \<Rightarrow> RNode list" where
  "restoreVerticalWhiteSpace nodes = map (\<lambda>node. node\<lparr>YNode := restoreNode (YNode node)\<rparr>) nodes"

subsection \<open>What the restorer computes, child by child\<close>

text \<open>What is subtracted for a head comment and for a foot comment: nothing for an empty
  comment; for a head comment the number of its lines (its newlines plus one); for a foot
  comment the number of its lines plus one (its newlines plus two).\<close>

definition headLines :: "string \<Rightarrow> 64 word" where
  "headLines h = (if length h > 0 then of_int (Count h (CHR 0x0A)) + 1 else 0)"

definition footLines :: "string \<Rightarrow> 64 word" where
  "footLines f = (if length f > 0 then of_int (Count f (CHR 0x0A)) + 2 else 0)"

text \<open>The foot comment that applies to child \<open>i\<close>: the previous sibling's, or, when that
  one is empty in a mapping, the one of the sibling two positions back.\<close>

definition footOf :: "Kind \<Rightarrow> Node list \<Rightarrow> nat \<Rightarrow> string" where
  "footOf kind cs i =
     (if FootComment (cs ! (i - 1)) = [] \<and> kind = MappingNode \<and> 2 \<le> i
      then FootComment (cs ! (i - 2)) else FootComment (cs ! (i - 1)))"

text \<open>Child \<open>i\<close> is examined when it is not the first and not on the line of its previous
  sibling.\<close>

definition examined :: "Node list \<Rightarrow> nat \<Rightarrow> bool" where
  "examined cs i = (0 < i \<and> Line (cs ! i) \<noteq> Line (cs ! (i - 1)))"

text \<open>The lines already claimed when child \<open>i\<close> has been handled: the largest (as signed
  numbers) of the line \<open>l\<close> of the document node and the deepest lines of the previous
  siblings of the children examined up to \<open>i\<close>.\<close>

fun claimed :: "64 word \<Rightarrow> Node list \<Rightarrow> nat \<Rightarrow> 64 word" where
  "claimed l cs 0 = l"
| "claimed l cs (Suc i) =
     (if examined cs (Suc i) \<and> claimed l cs i <s lastLine (cs ! i) then lastLine (cs ! i)
      else claimed l cs i)"

text \<open>The gap of child \<open>i\<close>, in the wrapping arithmetic of the Go \<open>int\<close>.\<close>

definition gap :: "Kind \<Rightarrow> 64 word \<Rightarrow> Node list \<Rightarrow> nat \<Rightarrow> 64 word" where
  "gap kind l cs i =
     Line (cs ! i) - 1 - headLines (HeadComment (cs ! i)) - claimed l cs i
       - footLines (footOf kind cs i)"

definition restoredChild :: "Kind \<Rightarrow> 64 word \<Rightarrow> Node list \<Rightarrow> nat \<Rightarrow> Node" where
  "restoredChild kind l cs i =
     (if examined cs i \<and> 0 <s gap kind l cs i
      then setHeadComment (Repeat (CHR 0x0A) (sint (gap kind l cs i)) @ HeadComment (cs ! i))
             (cs ! i)
      else cs ! i)"






section \<open>More of the Go standard library\<close>

text \<open>
  \<open>lowerChar\<close>, \<open>upperChar\<close>, \<open>ToLower\<close> and \<open>ToUpper\<close> are the branch of \<open>strings.ToLower\<close>
  and \<open>strings.ToUpper\<close> for a string of ASCII bytes: the ASCII letters are mapped, every
  other byte is kept.  The functions for all strings, \<open>strings_ToLower\<close> and
  \<open>strings_ToUpper\<close>, are defined below, after the decoding of UTF-8.
\<close>

definition lowerChar :: "char \<Rightarrow> char" where
  "lowerChar c = (if 65 \<le> (of_char c :: nat) \<and> (of_char c :: nat) \<le> 90
                  then char_of ((of_char c :: nat) + 32) else c)"

definition upperChar :: "char \<Rightarrow> char" where
  "upperChar c = (if 97 \<le> (of_char c :: nat) \<and> (of_char c :: nat) \<le> 122
                  then char_of ((of_char c :: nat) - 32) else c)"

definition ToLower :: "string \<Rightarrow> string" where
  "ToLower s = map lowerChar s"

definition ToUpper :: "string \<Rightarrow> string" where
  "ToUpper s = map upperChar s"

text \<open>\<open>strings.IndexRune\<close> and \<open>strings.LastIndex\<close> for one ASCII character: the index of
  its first (last) occurrence, \<open>-1\<close> when there is none.\<close>

fun IndexRune :: "string \<Rightarrow> char \<Rightarrow> int" where
  "IndexRune [] c = -1"
| "IndexRune (x # xs) c =
     (if x = c then 0 else (let r = IndexRune xs c in if r < 0 then -1 else r + 1))"

definition LastIndex :: "string \<Rightarrow> char \<Rightarrow> int" where
  "LastIndex s c =
     (let r = IndexRune (rev s) c in if r < 0 then -1 else int (length s) - 1 - r)"

text \<open>\<open>strings.Contains\<close> and \<open>strings.ContainsAny\<close>.\<close>

fun Contains :: "string \<Rightarrow> string \<Rightarrow> bool" where
  "Contains [] substr = (substr = [])"
| "Contains (x # xs) substr = (prefix substr (x # xs) \<or> Contains xs substr)"

definition ContainsAny :: "string \<Rightarrow> string \<Rightarrow> bool" where
  "ContainsAny s chars = list_ex (\<lambda>c. c \<in> set chars) s"

text \<open>\<open>strings.Split\<close> at a separator of one byte, and \<open>strings.Join\<close>.\<close>

fun Split :: "string \<Rightarrow> char \<Rightarrow> string list" where
  "Split [] sep = [[]]"
| "Split (c # cs) sep =
     (if c = sep then [] # Split cs sep
      else (case Split cs sep of [] \<Rightarrow> [[c]] | p # ps \<Rightarrow> (c # p) # ps))"

fun Join :: "string list \<Rightarrow> string \<Rightarrow> string" where
  "Join [] sep = []"
| "Join [x] sep = x"
| "Join (x # y # ys) sep = x @ sep @ Join (y # ys) sep"

subsection \<open>\<open>strconv.Atoi\<close> and the order of strings\<close>

text \<open>
  \<open>strconv.Atoi\<close>: an optional sign and then one or more decimal digits, nothing else; a
  value outside the 64-bit \<open>int\<close> is an error (\<open>None\<close>).
\<close>

definition isDigit :: "char \<Rightarrow> bool" where
  "isDigit c = (48 \<le> (of_char c :: nat) \<and> (of_char c :: nat) \<le> 57)"

definition digits :: "string \<Rightarrow> int" where
  "digits s = foldl (\<lambda>n c. 10 * n + (int (of_char c) - 48)) 0 s"

definition Atoi :: "string \<Rightarrow> int option" where
  "Atoi s =
     (let neg = (s \<noteq> [] \<and> hd s = CHR ''-'');
          ds = (if s \<noteq> [] \<and> (hd s = CHR ''+'' \<or> hd s = CHR ''-'') then tl s else s)
      in if ds = [] \<or> \<not> list_all isDigit ds then None
         else let n = (if neg then - digits ds else digits ds)
              in if n < - (2 ^ 63) \<or> 2 ^ 63 - 1 < n then None else Some n)"

text \<open>The order \<open><\<close> of Go strings: byte by byte, a proper prefix first.\<close>

fun stringLess :: "string \<Rightarrow> string \<Rightarrow> bool" where
  "stringLess [] [] = False"
| "stringLess [] (y # ys) = True"
| "stringLess (x # xs) [] = False"
| "stringLess (x # xs) (y # ys) =
     ((of_char x :: nat) < of_char y \<or> (x = y \<and> stringLess xs ys))"

subsection \<open>\<open>base64.StdEncoding.DecodeString\<close>\<close>

text \<open>The value of a character of the standard alphabet.\<close>

definition decodeMap :: "char \<Rightarrow> nat option" where
  "decodeMap c =
     (let n = (of_char c :: nat)
      in if 65 \<le> n \<and> n \<le> 90 then Some (n - 65)
         else if 97 \<le> n \<and> n \<le> 122 then Some (n - 71)
         else if 48 \<le> n \<and> n \<le> 57 then Some (n + 4)
         else if c = CHR ''+'' then Some 62
         else if c = CHR ''/'' then Some 63
         else None)"

definition isNewline :: "char \<Rightarrow> bool" where
  "isNewline c = (c = CHR 0x0A \<or> c = CHR 0x0D)"

text \<open>The first \<open>k\<close> bytes of the 24 bits that up to four 6-bit values give.\<close>

definition quantumBytes :: "nat list \<Rightarrow> nat \<Rightarrow> string" where
  "quantumBytes dbuf k =
     (let d = dbuf @ replicate (4 - length dbuf) 0;
          val = d ! 0 * 262144 + d ! 1 * 4096 + d ! 2 * 64 + d ! 3
      in take k [char_of (val div 65536), char_of (val div 256), char_of val])"

text \<open>
  The decoder, character by character; \<open>dbuf\<close> holds the values of the quantum read so
  far (fewer than four).  Carriage returns and newlines are skipped.  A quantum ends
  with its fourth character, or with padding: \<open>==\<close> after two characters, \<open>=\<close> after
  three, and then the input must be at its end.  The encoding is not strict: the unused
  bits of a padded quantum are not checked.
\<close>

fun decodeFrom :: "nat list \<Rightarrow> string \<Rightarrow> error + string" where
  "decodeFrom dbuf [] = (if dbuf = [] then Inr [] else Inl CorruptInputError)"
| "decodeFrom dbuf (c # src) =
     (case decodeMap c of
        Some out \<Rightarrow>
          (if length dbuf = 3
           then (case decodeFrom [] src of
                   Inl err \<Rightarrow> Inl err
                 | Inr dst \<Rightarrow> Inr (quantumBytes (dbuf @ [out]) 3 @ dst))
           else decodeFrom (dbuf @ [out]) src)
      | None \<Rightarrow>
          if isNewline c then decodeFrom dbuf src
          else if c \<noteq> CHR ''='' then Inl CorruptInputError
          else if length dbuf < 2 then Inl CorruptInputError
          else if length dbuf = 2 then
            (case dropWhile isNewline src of
               [] \<Rightarrow> Inl CorruptInputError
             | p # rest \<Rightarrow>
                 if p \<noteq> CHR ''='' then Inl CorruptInputError
                 else if dropWhile isNewline rest \<noteq> [] then Inl CorruptInputError
                 else Inr (quantumBytes dbuf 1))
          else if dropWhile isNewline src \<noteq> [] then Inl CorruptInputError
          else Inr (quantumBytes dbuf 2))"

definition DecodeString :: "string \<Rightarrow> error + string" where
  "DecodeString s = decodeFrom [] s"

subsection \<open>UTF-8\<close>

text \<open>
  A rune is a natural number here.  \<open>utf8.DecodeRuneInString\<close>: the rune at the start of
  the string and the number of bytes it takes; a byte that starts no valid encoding gives
  \<open>RuneError\<close> and the width 1.  The first byte tells the size and the range of the second
  byte (the tables \<open>first\<close> and \<open>acceptRanges\<close>).
\<close>

definition RuneError :: nat where
  "RuneError = 0xFFFD"

definition DecodeRuneInString :: "string \<Rightarrow> nat \<times> nat" where
  "DecodeRuneInString s =
     (case s of
        [] \<Rightarrow> (RuneError, 0)
      | c0 # rest \<Rightarrow>
          (let s0 = (of_char c0 :: nat)
           in if s0 < 0x80 then (s0, 1)
              else if s0 < 0xC2 \<or> 0xF4 < s0 then (RuneError, 1)
              else
                (let sz = (if s0 < 0xE0 then 2 else if s0 < 0xF0 then 3 else 4 :: nat);
                     lo = (if s0 = 0xE0 then 0xA0 else if s0 = 0xF0 then 0x90 else 0x80 :: nat);
                     hi = (if s0 = 0xED then 0x9F else if s0 = 0xF4 then 0x8F else 0xBF :: nat)
                 in if length s < sz then (RuneError, 1)
                    else
                      (let s1 = (of_char (s ! 1) :: nat)
                       in if s1 < lo \<or> hi < s1 then (RuneError, 1)
                          else if sz \<le> 2 then (s0 mod 32 * 64 + s1 mod 64, 2)
                          else
                            (let s2 = (of_char (s ! 2) :: nat)
                             in if s2 < 0x80 \<or> 0xBF < s2 then (RuneError, 1)
                                else if sz \<le> 3
                                then (s0 mod 16 * 4096 + s1 mod 64 * 64 + s2 mod 64, 3)
                                else
                                  (let s3 = (of_char (s ! 3) :: nat)
                                   in if s3 < 0x80 \<or> 0xBF < s3 then (RuneError, 1)
                                      else (s0 mod 8 * 262144 + s1 mod 64 * 4096
                                              + s2 mod 64 * 64 + s3 mod 64, 4)))))))"

text \<open>\<open>utf8.ValidRune\<close>, and \<open>utf8.AppendRune\<close> to an empty buffer: the encoding of a rune,
  that of \<open>RuneError\<close> for a rune that is not valid.\<close>

definition ValidRune :: "nat \<Rightarrow> bool" where
  "ValidRune r = (r < 0xD800 \<or> (0xDFFF < r \<and> r \<le> 0x10FFFF))"

definition AppendRune :: "nat \<Rightarrow> string" where
  "AppendRune r =
     (if r < 0x80 then [char_of r]
      else if r < 0x800 then [char_of (0xC0 + r div 64), char_of (0x80 + r mod 64)]
      else if 0x10FFFF < r \<or> (0xD800 \<le> r \<and> r \<le> 0xDFFF) then [CHR 0xEF, CHR 0xBF, CHR 0xBD]
      else if r < 0x10000
      then [char_of (0xE0 + r div 4096), char_of (0x80 + r div 64 mod 64),
            char_of (0x80 + r mod 64)]
      else [char_of (0xF0 + r div 262144), char_of (0x80 + r div 4096 mod 64),
            char_of (0x80 + r div 64 mod 64), char_of (0x80 + r mod 64)])"

text \<open>The runes of a string, as \<open>for _, c := range s\<close> yields them.\<close>

fun runes :: "string \<Rightarrow> nat list" where
  "runes [] = []"
| "runes (c # s) =
     (let (r, width) = DecodeRuneInString (c # s) in r # runes (drop (width - 1) s))"

subsection \<open>\<open>strings.ToLower\<close> and \<open>strings.ToUpper\<close>\<close>

text \<open>
  \<open>strings.Map\<close> for a mapping that returns no negative rune: every rune of the string is
  mapped and encoded, a byte that is no valid encoding as \<open>RuneError\<close>.  (Go copies the
  bytes up to the first rune that changes; they are the encodings of their runes.)
  \<open>unicode.ToLower\<close> and \<open>unicode.ToUpper\<close> map the ASCII letters, and look up the runes
  beyond ASCII in the tables of the Unicode standard, which are the parameter \<open>tbl\<close>.
  \<open>strings.ToLower\<close> and \<open>strings.ToUpper\<close> take the branch for ASCII when every byte of
  the string is ASCII, and map the runes otherwise.
\<close>

definition Map_func :: "(nat \<Rightarrow> nat) \<Rightarrow> string \<Rightarrow> string" where
  "Map_func mapping s = concat (map (\<lambda>c. AppendRune (mapping c)) (runes s))"

definition unicode_ToLower :: "(nat \<Rightarrow> nat) \<Rightarrow> nat \<Rightarrow> nat" where
  "unicode_ToLower tbl r =
     (if r \<le> 0x7F then (if 65 \<le> r \<and> r \<le> 90 then r + 32 else r) else tbl r)"

definition unicode_ToUpper :: "(nat \<Rightarrow> nat) \<Rightarrow> nat \<Rightarrow> nat" where
  "unicode_ToUpper tbl r =
     (if r \<le> 0x7F then (if 97 \<le> r \<and> r \<le> 122 then r - 32 else r) else tbl r)"

definition strings_ToLower :: "(nat \<Rightarrow> nat) \<Rightarrow> string \<Rightarrow> string" where
  "strings_ToLower tbl s =
     (if list_all (\<lambda>c. (of_char c :: nat) < 0x80) s then ToLower s
      else Map_func (unicode_ToLower tbl) s)"

definition strings_ToUpper :: "(nat \<Rightarrow> nat) \<Rightarrow> string \<Rightarrow> string" where
  "strings_ToUpper tbl s =
     (if list_all (\<lambda>c. (of_char c :: nat) < 0x80) s then ToUpper s
      else Map_func (unicode_ToUpper tbl) s)"

subsection \<open>The verb \<open>%q\<close>\<close>

text \<open>
  \<open>strconv.IsPrint\<close>: decided by the ranges of the code for the runes up to \<open>U+00FF\<close>, and by
  the tables of the package, which are the parameter \<open>tbl\<close>, beyond.
\<close>

definition IsPrint :: "(nat \<Rightarrow> bool) \<Rightarrow> nat \<Rightarrow> bool" where
  "IsPrint tbl r =
     (if r \<le> 0xFF then (0x20 \<le> r \<and> r \<le> 0x7E) \<or> (0xA1 \<le> r \<and> r \<noteq> 0xAD) else tbl r)"

definition hexDigit :: "nat \<Rightarrow> char" where
  "hexDigit n = ''0123456789abcdef'' ! (n mod 16)"

text \<open>
  \<open>appendEscapedRune\<close> of \<open>strconv\<close> for the quote \<open>"\<close> (\<open>ASCIIonly\<close> and \<open>graphicOnly\<close> are
  false): \<open>"\<close> and \<open>\\<close> get a backslash, a printable rune is encoded as it is, and any other
  rune is written as \<open>\a \b \f \n \r \t \v\<close>, as \<open>\x\<close> and two hexadecimal digits below
  the space and for \<open>U+007F\<close>, as \<open>\u\<close> and four digits below \<open>U+10000\<close>, and as \<open>\U\<close> and
  eight digits from there on.
\<close>

definition appendEscapedRune :: "(nat \<Rightarrow> bool) \<Rightarrow> nat \<Rightarrow> string" where
  "appendEscapedRune tbl r =
     (if r = 0x22 \<or> r = 0x5C then [CHR 0x5C, char_of r]
      else if IsPrint tbl r then AppendRune r
      else if r = 7 then [CHR 0x5C, CHR ''a'']
      else if r = 8 then [CHR 0x5C, CHR ''b'']
      else if r = 12 then [CHR 0x5C, CHR ''f'']
      else if r = 10 then [CHR 0x5C, CHR ''n'']
      else if r = 13 then [CHR 0x5C, CHR ''r'']
      else if r = 9 then [CHR 0x5C, CHR ''t'']
      else if r = 11 then [CHR 0x5C, CHR ''v'']
      else if r < 0x20 \<or> r = 0x7F then [CHR 0x5C, CHR ''x'', hexDigit (r div 16), hexDigit r]
      else if \<not> ValidRune r then [CHR 0x5C, CHR ''u'', CHR ''f'', CHR ''f'', CHR ''f'', CHR ''d'']
      else if r < 0x10000
      then [CHR 0x5C, CHR ''u'', hexDigit (r div 4096), hexDigit (r div 256),
            hexDigit (r div 16), hexDigit r]
      else [CHR 0x5C, CHR ''U'', hexDigit (r div 268435456), hexDigit (r div 16777216),
            hexDigit (r div 1048576), hexDigit (r div 65536), hexDigit (r div 4096),
            hexDigit (r div 256), hexDigit (r div 16), hexDigit r])"

text \<open>
  \<open>strconv.Quote\<close>, which \<open>%q\<close> applies to a string: between two double quotes, rune by
  rune, a byte that is no valid encoding as \<open>\x\<close> and its two hexadecimal digits, every
  other rune as \<open>appendEscapedRune\<close> writes it.
\<close>

fun quoteFrom :: "(nat \<Rightarrow> bool) \<Rightarrow> string \<Rightarrow> string" where
  "quoteFrom tbl [] = []"
| "quoteFrom tbl (c # s) =
     (let (r, width) = DecodeRuneInString (c # s)
      in (if width = 1 \<and> r = RuneError
          then [CHR 0x5C, CHR ''x'', hexDigit ((of_char c :: nat) div 16), hexDigit (of_char c)]
          else appendEscapedRune tbl r) @ quoteFrom tbl (drop (width - 1) s))"

definition Quote :: "(nat \<Rightarrow> bool) \<Rightarrow> string \<Rightarrow> string" where
  "Quote tbl s = [CHR 0x22] @ quoteFrom tbl s @ [CHR 0x22]"

section \<open>Output streams and the libraries behind the writers\<close>

text \<open>
  The structs of the writers.  The field \<open>Writer\<close> of each (the \<open>io.Writer\<close> written to) is
  not a field here: the state \<open>'s\<close> of the output stream is passed to every \<open>Write\<close> and
  returned by it, together with the error (\<open>None\<close> is \<open>nil\<close>).  \<open>ByteWriter\<close> is
  \<open>kio.ByteWriter\<close> of kyaml; \<open>'f\<close> is \<open>template.FuncMap\<close>.
\<close>

record ByteWriter =
  KeepReaderAnnotations :: bool
  ClearAnnotations :: "string list"
  Sort :: bool

record JSONWriter =
  KeepReaderAnnotations :: bool
  ClearAnnotations :: "string list"
  WrappingKind :: string
  WrappingAPIVersion :: string
  Sort :: bool

text \<open>The stream of a template writer: the output stream itself, or
  \<open>tabwriter.NewWriter(w.Writer, 3, 0, 3, ' ', 0)\<close> around it.\<close>

datatype Stream = Direct | TabWriter

record 'f TemplateWriter =
  Stream :: Stream
  Template :: string
  Functions :: "'f option"
  WrappingKind :: string
  WrappingAPIVersion :: string

record EnvWriter =
  Unset :: bool
  Shell :: string
  Selector :: string

record 'f Writer =
  Format :: string
  KeepReaderAnnotations :: bool
  ClearAnnotations :: "string list"
  Sort :: bool
  RestoreVerticalWhiteSpace :: bool
  Functions :: "'f option"

text \<open>\<open>ResourceMeta\<close> of kyaml, of which the code reads \<open>Kind\<close>.\<close>

record ResourceMeta =
  APIVersion :: string
  TypeKind :: string

text \<open>
  What the writers call and this repository does not define:
  \<^item> \<open>Write\<close>: \<open>io.Writer.Write\<close> of the output stream (the bytes, the state before; the
    error and the state after);
  \<^item> \<open>ByteWriter_Write\<close>: \<open>kio.ByteWriter.Write\<close> to the output stream;
  \<^item> \<open>SortNodes\<close>: \<open>kioutil.SortNodes\<close>, which sorts the slice in place;
  \<^item> \<open>ClearAnnotation\<close>: \<open>n.Pipe(yaml.ClearAnnotation(a))\<close>, which changes the document;
  \<^item> \<open>Marshal\<close>: the JSON text of a document (\<open>json.Encoder\<close> on an \<open>*yaml.RNode\<close>);
  \<^item> \<open>Parse\<close>: \<open>template.New("resource").Funcs(fns).Parse(t)\<close>, where \<open>fns\<close> is \<open>upper\<close>
    and \<open>lower\<close> overridden by the functions of the writer;
  \<^item> \<open>Decode\<close>: \<open>n.YNode().Decode(&data)\<close>;
  \<^item> \<open>Execute\<close>: \<open>tmpl.Execute\<close> on a stream; \<open>Flush\<close>: the \<open>Flush\<close> method of the
    stream, \<open>None\<close> when it has none;
  \<^item> \<open>MatchesLabelSelector\<close>, \<open>GetMeta\<close>, \<open>GetDataMap\<close>: the methods of \<open>*yaml.RNode\<close>;
    the data map is the list of its pairs in the order in which \<open>range\<close> yields them;
  \<^item> \<open>Getenv\<close>: \<open>os.Getenv\<close>;
  \<^item> \<open>LowerTable\<close>, \<open>UpperTable\<close>: the tables of \<open>unicode.ToLower\<close> and
    \<open>unicode.ToUpper\<close> for the runes beyond ASCII; \<open>PrintTable\<close>: the tables of
    \<open>strconv.IsPrint\<close> for the runes beyond \<open>U+00FF\<close>.
\<close>

record ('s, 'f, 't, 'd) Externals =
  Write :: "string \<Rightarrow> 's \<Rightarrow> error option \<times> 's"
  ByteWriter_Write :: "ByteWriter \<Rightarrow> RNode list \<Rightarrow> 's \<Rightarrow> error option \<times> 's"
  SortNodes :: "RNode list \<Rightarrow> error + RNode list"
  ClearAnnotation :: "string \<Rightarrow> RNode \<Rightarrow> error + RNode"
  Marshal :: "RNode \<Rightarrow> error + string"
  Parse :: "'f option \<Rightarrow> string \<Rightarrow> error + 't"
  Decode :: "Node \<Rightarrow> error + 'd"
  Execute :: "Stream \<Rightarrow> 't \<Rightarrow> 'd \<Rightarrow> 's \<Rightarrow> error option \<times> 's"
  Flush :: "Stream \<Rightarrow> ('s \<Rightarrow> error option \<times> 's) option"
  MatchesLabelSelector :: "RNode \<Rightarrow> string \<Rightarrow> error + bool"
  GetMeta :: "RNode \<Rightarrow> error + ResourceMeta"
  GetDataMap :: "RNode \<Rightarrow> (string \<times> string) list"
  Getenv :: "string \<Rightarrow> string"
  LowerTable :: "nat \<Rightarrow> nat"
  UpperTable :: "nat \<Rightarrow> nat"
  PrintTable :: "nat \<Rightarrow> bool"

text \<open>\<open>kioutil.IndexAnnotation\<close> and \<open>kioutil.PathAnnotation\<close>.\<close>

definition IndexAnnotation :: string where
  "IndexAnnotation = ''config.kubernetes.io/index''"

definition PathAnnotation :: string where
  "PathAnnotation = ''config.kubernetes.io/path''"

section \<open>The JSON writer\<close>

text \<open>\<open>wrap\<close>: the documents as the items of one list document.\<close>

definition scalar :: "string \<Rightarrow> Node" where
  "scalar v = Node ScalarNode v [] [] 0 []"

definition wrap :: "string \<Rightarrow> string \<Rightarrow> RNode list \<Rightarrow> RNode" where
  "wrap apiVersion kind nodes =
     (let items = Node SequenceNode [] [] [] 0 (map YNode nodes)
      in NewRNode (Node DocumentNode [] [] [] 0
           [Node MappingNode [] [] [] 0
              [scalar ''apiVersion'', scalar apiVersion,
               scalar ''kind'', scalar kind,
               scalar ''items'', items]]))"

text \<open>\<open>enc.Encode(v)\<close> of a \<open>json.Encoder\<close> on the output stream: the JSON text and a
  newline, in one write.\<close>

definition Encode ::
  "('s, 'f, 't, 'd) Externals \<Rightarrow> RNode \<Rightarrow> 's \<Rightarrow> error option \<times> 's" where
  "Encode X v s =
     (case Marshal X v of
        Inl err \<Rightarrow> (Some err, s)
      | Inr b \<Rightarrow> Write X (b @ [CHR 0x0A]) s)"

text \<open>The annotations of one document cleared: the index annotation unless the reader
  annotations are kept, then each of \<open>ClearAnnotations\<close>.\<close>

fun clearEach :: "('s, 'f, 't, 'd) Externals \<Rightarrow> string list \<Rightarrow> RNode \<Rightarrow> error + RNode" where
  "clearEach X [] n = Inr n"
| "clearEach X (a # as) n =
     (case ClearAnnotation X a n of
        Inl err \<Rightarrow> Inl err
      | Inr n' \<Rightarrow> clearEach X as n')"

fun clearNodes :: "('s, 'f, 't, 'd) Externals \<Rightarrow> JSONWriter \<Rightarrow> RNode list \<Rightarrow> error + RNode list"
  where
  "clearNodes X w [] = Inr []"
| "clearNodes X w (n # ns) =
     (case clearEach X
             ((if \<not> JSONWriter.KeepReaderAnnotations w then [IndexAnnotation] else [])
                @ JSONWriter.ClearAnnotations w) n of
        Inl err \<Rightarrow> Inl err
      | Inr n' \<Rightarrow>
          (case clearNodes X w ns of
             Inl err \<Rightarrow> Inl err
           | Inr ns' \<Rightarrow> Inr (n' # ns')))"

fun encodeEach :: "('s, 'f, 't, 'd) Externals \<Rightarrow> RNode list \<Rightarrow> 's \<Rightarrow> error option \<times> 's" where
  "encodeEach X [] s = (None, s)"
| "encodeEach X (n # ns) s =
     (case Encode X n s of
        (Some err, s') \<Rightarrow> (Some err, s')
      | (None, s') \<Rightarrow> encodeEach X ns s')"

definition JSONWriter_Write ::
  "('s, 'f, 't, 'd) Externals \<Rightarrow> JSONWriter \<Rightarrow> RNode list \<Rightarrow> 's \<Rightarrow> error option \<times> 's" where
  "JSONWriter_Write X w nodes s =
     (case (if JSONWriter.Sort w then SortNodes X nodes else Inr nodes) of
        Inl err \<Rightarrow> (Some err, s)
      | Inr nodes \<Rightarrow>
          (case clearNodes X w nodes of
             Inl err \<Rightarrow> (Some err, s)
           | Inr nodes \<Rightarrow>
               if JSONWriter.WrappingKind w = [] then encodeEach X nodes s
               else Encode X
                      (wrap (JSONWriter.WrappingAPIVersion w) (JSONWriter.WrappingKind w) nodes) s))"

section \<open>The template writer\<close>

fun executeEach ::
  "('s, 'f, 't, 'd) Externals \<Rightarrow> Stream \<Rightarrow> 't \<Rightarrow> RNode list \<Rightarrow> 's \<Rightarrow> error option \<times> 's" where
  "executeEach X out tmpl [] s = (None, s)"
| "executeEach X out tmpl (n # ns) s =
     (case Decode X (YNode n) of
        Inl err \<Rightarrow> (Some err, s)
      | Inr data \<Rightarrow>
          (case Execute X out tmpl data s of
             (Some err, s') \<Rightarrow> (Some err, s')
           | (None, s') \<Rightarrow> executeEach X out tmpl ns s'))"

definition TemplateWriter_Write ::
  "('s, 'f, 't, 'd) Externals \<Rightarrow> 'f TemplateWriter \<Rightarrow> RNode list \<Rightarrow> 's \<Rightarrow> error option \<times> 's"
  where
  "TemplateWriter_Write X w nodes s =
     (case Parse X (TemplateWriter.Functions w) (Template w) of
        Inl err \<Rightarrow> (Some err, s)
      | Inr tmpl \<Rightarrow>
          (let nodes = (if TemplateWriter.WrappingKind w \<noteq> []
                        then [wrap (TemplateWriter.WrappingAPIVersion w)
                                (TemplateWriter.WrappingKind w) nodes]
                        else nodes)
           in case executeEach X (Stream w) tmpl nodes s of
                (Some err, s') \<Rightarrow> (Some err, s')
              | (None, s') \<Rightarrow>
                  (case Flush X (Stream w) of
                     Some f \<Rightarrow> f s'
                   | None \<Rightarrow> (None, s'))))"

section \<open>The name/value writer\<close>

text \<open>The shell: the configured one in lower case, or else the base name of \<open>$SHELL\<close> in
  lower case.\<close>

definition detectShell :: "('s, 'f, 't, 'd) Externals \<Rightarrow> EnvWriter \<Rightarrow> string" where
  "detectShell X w =
     (let sh = strings_ToLower (LowerTable X) (Shell w)
      in if sh = [] then
           (let shell = Getenv X ''SHELL''
            in if shell \<noteq> [] then strings_ToLower (LowerTable X) (Base shell) else sh)
         else sh)"

text \<open>The text that \<open>printEnvVar\<close> formats for one pair: \<open>%s\<close> copies the bytes of the
  string, \<open>%q\<close> quotes it; \<open>tbl\<close> is the table of the printable runes.\<close>

definition envLine :: "(nat \<Rightarrow> bool) \<Rightarrow> EnvWriter \<Rightarrow> string \<Rightarrow> string \<Rightarrow> string \<Rightarrow> string" where
  "envLine tbl w sh k v =
     (if sh = ''none'' \<or> sh = [] then
        (if Unset w then k @ ''='' @ [CHR 0x0A]
         else k @ ''='' @ v @ [CHR 0x0A])
      else if sh = ''fish'' then
        (if Unset w then ''set -e '' @ k @ '';'' @ [CHR 0x0A]
         else ''set -gx '' @ k @ '' '' @ Quote tbl v @ '';'' @ [CHR 0x0A])
      else
        (if Unset w then ''unset '' @ k @ [CHR 0x0A]
         else ''export '' @ k @ ''='' @ Quote tbl v @ [CHR 0x0A]))"

text \<open>\<open>printEnvVar\<close>: one \<open>fmt.Fprintf\<close>, that is one write to the stream, whose error is
  dropped.\<close>

definition printEnvVar ::
  "('s, 'f, 't, 'd) Externals \<Rightarrow> EnvWriter \<Rightarrow> string \<Rightarrow> string \<Rightarrow> string \<Rightarrow> 's \<Rightarrow> 's" where
  "printEnvVar X w sh k v s = snd (Write X (envLine (PrintTable X) w sh k v) s)"

text \<open>The loop over the data map of one document.\<close>

fun printData ::
  "('s, 'f, 't, 'd) Externals \<Rightarrow> EnvWriter \<Rightarrow> string \<Rightarrow> (string \<Rightarrow> error + string)
     \<Rightarrow> (string \<times> string) list \<Rightarrow> 's \<Rightarrow> error option \<times> 's" where
  "printData X w sh decode [] s = (None, s)"
| "printData X w sh decode ((k, v) # kvs) s =
     (case decode v of
        Inl err \<Rightarrow> (Some err, s)
      | Inr b \<Rightarrow>
          (let v = b
           in if Contains k ''.'' \<or> ContainsAny v [CHR 0x0A, CHR 0x0D]
              then printData X w sh decode kvs s
              else printData X w sh decode kvs (printEnvVar X w sh k v s)))"

text \<open>The pairs of a data map that are printed: those whose value decodes, decoded, without
  the pairs whose key has a dot or whose decoded value has a newline or a carriage
  return.\<close>

definition surviving ::
  "(string \<Rightarrow> error + string) \<Rightarrow> (string \<times> string) list \<Rightarrow> (string \<times> string) list" where
  "surviving decode kvs =
     filter (\<lambda>(k, b). \<not> (CHR ''.'' \<in> set k \<or> CHR 0x0A \<in> set b \<or> CHR 0x0D \<in> set b))
       (concat (map (\<lambda>(k, v). case decode v of Inl err \<Rightarrow> [] | Inr b \<Rightarrow> [(k, b)]) kvs))"

text \<open>The decode function of a document: base64 for a \<open>Secret\<close>, the identity otherwise.\<close>

definition decodeOf :: "('s, 'f, 't, 'd) Externals \<Rightarrow> RNode \<Rightarrow> string \<Rightarrow> error + string" where
  "decodeOf X n =
     (case GetMeta X n of
        Inr m \<Rightarrow> if TypeKind m = ''Secret'' then DecodeString else Inr
      | Inl err \<Rightarrow> Inr)"

text \<open>The loop over the documents.\<close>

fun printNodes ::
  "('s, 'f, 't, 'd) Externals \<Rightarrow> EnvWriter \<Rightarrow> string \<Rightarrow> RNode list \<Rightarrow> 's
     \<Rightarrow> error option \<times> 's" where
  "printNodes X w sh [] s = (None, s)"
| "printNodes X w sh (n # ns) s =
     (case MatchesLabelSelector X n (Selector w) of
        Inr False \<Rightarrow> printNodes X w sh ns s
      | _ \<Rightarrow>
          (case printData X w sh (decodeOf X n) (GetDataMap X n) s of
             (Some err, s') \<Rightarrow> (Some err, s')
           | (None, s') \<Rightarrow> printNodes X w sh ns s'))"

definition EnvWriter_Write ::
  "('s, 'f, 't, 'd) Externals \<Rightarrow> EnvWriter \<Rightarrow> RNode list \<Rightarrow> 's \<Rightarrow> error option \<times> 's" where
  "EnvWriter_Write X w nodes s = printNodes X w (detectShell X w) nodes s"

section \<open>The format-dispatching writer\<close>

text \<open>The writer that \<open>Writer.Write\<close> delegates to (the variable \<open>ww\<close>).\<close>

datatype 'f kio_Writer =
    ByteWriter ByteWriter
  | JSONWriter JSONWriter
  | EnvWriter EnvWriter
  | TemplateWriter "'f TemplateWriter"

fun kio_Write ::
  "('s, 'f, 't, 'd) Externals \<Rightarrow> 'f kio_Writer \<Rightarrow> RNode list \<Rightarrow> 's \<Rightarrow> error option \<times> 's" where
  "kio_Write X (ByteWriter w) nodes s = ByteWriter_Write X w nodes s"
| "kio_Write X (JSONWriter w) nodes s = JSONWriter_Write X w nodes s"
| "kio_Write X (EnvWriter w) nodes s = EnvWriter_Write X w nodes s"
| "kio_Write X (TemplateWriter w) nodes s = TemplateWriter_Write X w nodes s"

text \<open>
  The variables \<open>templateStart\<close> and \<open>format\<close> before the \<open>switch\<close>.  The \<open>switch\<close> compares
  \<open>format\<close> with names of ASCII letters.  \<open>strings.ToLower\<close> maps an ASCII byte as \<open>ToLower\<close>
  does and leaves a rune beyond ASCII beyond ASCII, but for \<open>U+0130\<close> and \<open>U+212A\<close>, which
  it maps to \<open>i\<close> and \<open>k\<close>, letters that are in none of the names; so the case chosen and
  the index \<open>templateStart\<close> in that case are the ones that \<open>ToLower\<close> gives.
\<close>

definition templateStart :: "string \<Rightarrow> int" where
  "templateStart fmt = IndexRune (ToLower fmt) (CHR ''='') + 1"

definition formatName :: "string \<Rightarrow> string" where
  "formatName fmt =
     (let format = ToLower fmt
      in if templateStart fmt > 0 then take (nat (templateStart fmt - 1)) format
         else if Contains format ''{{'' then ''template''
         else format)"

text \<open>The headers and the columns of the \<open>columns\<close> format, from the text after \<open>=\<close>.\<close>

definition columnHeaders :: "(nat \<Rightarrow> nat) \<Rightarrow> string \<Rightarrow> string list" where
  "columnHeaders tbl arg =
     map (\<lambda>c. let c = TrimSpace c
              in strings_ToUpper tbl (drop (nat (LastIndex c (CHR ''.'') + 1)) c))
       (Split arg (CHR '',''))"

definition columnTemplates :: "string \<Rightarrow> string list" where
  "columnTemplates arg =
     map (\<lambda>c. let c = TrimSpace c in ''{{ .'' @ TrimPrefix c ''.'' @ '' }}'')
       (Split arg (CHR '',''))"

text \<open>The \<open>switch\<close>: the writer chosen, \<open>None\<close> when \<open>ww\<close> stays \<open>nil\<close>, and the documents,
  which the \<open>yaml\<close> case passes through the white space restorer when asked to.\<close>

definition selectWriter ::
  "('s, 'f, 't, 'd) Externals \<Rightarrow> 'f Writer \<Rightarrow> RNode list \<Rightarrow> 'f kio_Writer option \<times> RNode list"
  where
  "selectWriter X w nodes =
     (let format = formatName (Format w);
          arg = drop (nat (templateStart (Format w))) (Format w)
      in if format = ''yaml'' \<or> format = [] then
           (Some (ByteWriter
              \<lparr>ByteWriter.KeepReaderAnnotations = Writer.KeepReaderAnnotations w,
               ClearAnnotations = Writer.ClearAnnotations w,
               Sort = Writer.Sort w\<rparr>),
            if RestoreVerticalWhiteSpace w then restoreVerticalWhiteSpace nodes else nodes)
         else if format = ''json'' then
           (Some (JSONWriter
              \<lparr>JSONWriter.KeepReaderAnnotations = Writer.KeepReaderAnnotations w,
               ClearAnnotations = Writer.ClearAnnotations w,
               WrappingKind = ''List'',
               WrappingAPIVersion = ''v1'',
               Sort = Writer.Sort w\<rparr>), nodes)
         else if format = ''ndjson'' then
           (Some (JSONWriter
              \<lparr>JSONWriter.KeepReaderAnnotations = Writer.KeepReaderAnnotations w,
               ClearAnnotations = Writer.ClearAnnotations w,
               WrappingKind = [],
               WrappingAPIVersion = [],
               Sort = Writer.Sort w\<rparr>), nodes)
         else if format = ''env'' then
           (Some (EnvWriter \<lparr>Unset = False, Shell = [], Selector = []\<rparr>), nodes)
         else if format = ''name'' then
           (Some (TemplateWriter
              \<lparr>Stream = Direct,
               Template = ''{{ lower .kind }}/{{ .metadata.name }}'' @ [CHR 0x0A],
               Functions = None,
               WrappingKind = [],
               WrappingAPIVersion = []\<rparr>), nodes)
         else if format = ''template'' \<or> format = ''go-template'' then
           (Some (TemplateWriter
              \<lparr>Stream = Direct,
               Template = arg,
               Functions = Writer.Functions w,
               WrappingKind = [],
               WrappingAPIVersion = []\<rparr>), nodes)
         else if format = ''columns'' \<or> format = ''custom-columns'' then
           (Some (TemplateWriter
              \<lparr>Stream = TabWriter,
               Template = ''{{ if .items }}'' @ Join (columnHeaders (UpperTable X) arg) [CHR 0x09]
                 @ [CHR 0x0A] @ ''{{ range .items }}'' @ Join (columnTemplates arg) [CHR 0x09]
                 @ [CHR 0x0A] @ ''{{ end }}{{ else }}No results.'' @ [CHR 0x0A] @ ''{{ end }}'',
               Functions = Writer.Functions w,
               WrappingKind = ''List'',
               WrappingAPIVersion = ''v1''\<rparr>), nodes)
         else (None, nodes))"

definition Writer_Write ::
  "('s, 'f, 't, 'd) Externals \<Rightarrow> 'f Writer \<Rightarrow> RNode list \<Rightarrow> 's \<Rightarrow> error option \<times> 's" where
  "Writer_Write X w nodes s =
     (case selectWriter X w nodes of
        (None, nodes) \<Rightarrow> (Some (ErrorString (''unknown format: '' @ Format w)), s)
      | (Some ww, nodes) \<Rightarrow> kio_Write X ww nodes s)"

text \<open>The value of a field of a mapping, whose content is the keys and the values in
  turn.\<close>

fun fieldValue :: "string \<Rightarrow> Node list \<Rightarrow> Node option" where
  "fieldValue k (key # v # rest) = (if Value key = k then Some v else fieldValue k rest)"
| "fieldValue k rest = None"

definition field :: "string \<Rightarrow> Node \<Rightarrow> Node option" where
  "field k n = (if Kind n = MappingNode then fieldValue k (Content n) else None)"

section \<open>\<open>sort.SliceStable\<close>\<close>

text \<open>
  \<open>sort.SliceStable(x, less)\<close> of the Go standard library runs \<open>stable_func\<close> on the pair of
  \<open>less\<close> and the swapper of the slice: insertion sort on blocks of 20 elements, then
  passes of \<open>symMerge\<close> on blocks of doubling size.  \<open>less\<close> is a closure on two indices; it
  may read the slice as it is at the call, so it takes the slice here (\<open>cmp\<close>).  Every function
  returns an option: \<open>None\<close> stands for a run that does not return, by a panic (an index
  out of range in the swapper or in \<open>less\<close>) or by a loop that does not end.  Indices are
  natural numbers; the totality lemmas below show that on the calls \<open>stable_func\<close> makes
  no difference of indices is taken below zero.
\<close>

type_synonym 'a lessFn = "'a list \<Rightarrow> nat \<Rightarrow> nat \<Rightarrow> bool option"

definition Swap :: "nat \<Rightarrow> nat \<Rightarrow> 'a list \<Rightarrow> 'a list option" where
  "Swap i j xs =
     (if i < length xs \<and> j < length xs then Some (xs[i := xs ! j, j := xs ! i]) else None)"

text \<open>\<open>insertionSort_func(data, a, b)\<close>: the inner loop from \<open>j\<close> down, the outer loop from
  \<open>i\<close> up.\<close>

partial_function (option) insertDown ::
  "'a lessFn \<Rightarrow> nat \<Rightarrow> nat \<Rightarrow> 'a list \<Rightarrow> 'a list option" where
  "insertDown cmp a j xs =
     (if a < j then
        do {
          lt \<leftarrow> cmp xs j (j - 1);
          if lt then do { ys \<leftarrow> Swap j (j - 1) xs; insertDown cmp a (j - 1) ys }
          else Some xs
        }
      else Some xs)"

partial_function (option) insertionSortFrom ::
  "'a lessFn \<Rightarrow> nat \<Rightarrow> nat \<Rightarrow> nat \<Rightarrow> 'a list \<Rightarrow> 'a list option" where
  "insertionSortFrom cmp a b i xs =
     (if i < b then
        do { ys \<leftarrow> insertDown cmp a i xs; insertionSortFrom cmp a b (i + 1) ys }
      else Some xs)"

definition insertionSort :: "'a lessFn \<Rightarrow> nat \<Rightarrow> nat \<Rightarrow> 'a list \<Rightarrow> 'a list option" where
  "insertionSort cmp a b xs = insertionSortFrom cmp a b (a + 1) xs"

text \<open>\<open>swapRange_func(data, a, b, n)\<close>, from \<open>i\<close> on.\<close>

partial_function (option) swapRangeFrom ::
  "nat \<Rightarrow> nat \<Rightarrow> nat \<Rightarrow> nat \<Rightarrow> 'a list \<Rightarrow> 'a list option" where
  "swapRangeFrom a b n i xs =
     (if i < n then do { ys \<leftarrow> Swap (a + i) (b + i) xs; swapRangeFrom a b n (i + 1) ys }
      else Some xs)"

definition swapRange :: "nat \<Rightarrow> nat \<Rightarrow> nat \<Rightarrow> 'a list \<Rightarrow> 'a list option" where
  "swapRange a b n xs = swapRangeFrom a b n 0 xs"

text \<open>\<open>rotate_func(data, a, m, b)\<close>: the loop on \<open>i\<close> and \<open>j\<close>, which start as \<open>m - a\<close> and
  \<open>b - m\<close>, and the last \<open>swapRange\<close>.\<close>

partial_function (option) rotateLoop ::
  "nat \<Rightarrow> nat \<Rightarrow> nat \<Rightarrow> 'a list \<Rightarrow> 'a list option" where
  "rotateLoop m i j xs =
     (if i \<noteq> j then
        (if i > j then do { ys \<leftarrow> swapRange (m - i) m j xs; rotateLoop m (i - j) j ys }
         else do { ys \<leftarrow> swapRange (m - i) (m + j - i) i xs; rotateLoop m i (j - i) ys })
      else swapRange (m - i) m i xs)"

definition rotate_func :: "nat \<Rightarrow> nat \<Rightarrow> nat \<Rightarrow> 'a list \<Rightarrow> 'a list option" where
  "rotate_func a m b xs = rotateLoop m (m - a) (b - m) xs"

text \<open>The three binary searches of \<open>symMerge_func\<close>; \<open>h\<close> and \<open>c\<close> are
  \<open>int(uint(i+j) >> 1)\<close>, the half of a sum that is not negative.\<close>

partial_function (option) searchLow ::
  "'a lessFn \<Rightarrow> 'a list \<Rightarrow> nat \<Rightarrow> nat \<Rightarrow> nat \<Rightarrow> nat option" where
  "searchLow cmp xs a i j =
     (if i < j then
        (let h = (i + j) div 2
         in do { lt \<leftarrow> cmp xs h a;
                 if lt then searchLow cmp xs a (h + 1) j else searchLow cmp xs a i h })
      else Some i)"

partial_function (option) searchHigh ::
  "'a lessFn \<Rightarrow> 'a list \<Rightarrow> nat \<Rightarrow> nat \<Rightarrow> nat \<Rightarrow> nat option" where
  "searchHigh cmp xs m i j =
     (if i < j then
        (let h = (i + j) div 2
         in do { lt \<leftarrow> cmp xs m h;
                 if \<not> lt then searchHigh cmp xs m (h + 1) j else searchHigh cmp xs m i h })
      else Some i)"

partial_function (option) searchSym ::
  "'a lessFn \<Rightarrow> 'a list \<Rightarrow> nat \<Rightarrow> nat \<Rightarrow> nat \<Rightarrow> nat option" where
  "searchSym cmp xs p start r =
     (if start < r then
        (let c = (start + r) div 2
         in do { lt \<leftarrow> cmp xs (p - c) c;
                 if \<not> lt then searchSym cmp xs p (c + 1) r else searchSym cmp xs p start c })
      else Some start)"

text \<open>The loops \<open>for k := a; k < i-1; k++ { data.Swap(k, k+1) }\<close> and
  \<open>for k := m; k > i; k-- { data.Swap(k, k-1) }\<close>.\<close>

partial_function (option) swapUp :: "nat \<Rightarrow> nat \<Rightarrow> 'a list \<Rightarrow> 'a list option" where
  "swapUp k i xs =
     (if k + 1 < i then do { ys \<leftarrow> Swap k (k + 1) xs; swapUp (k + 1) i ys } else Some xs)"

partial_function (option) swapDown :: "nat \<Rightarrow> nat \<Rightarrow> 'a list \<Rightarrow> 'a list option" where
  "swapDown k i xs =
     (if k > i then do { ys \<leftarrow> Swap k (k - 1) xs; swapDown (k - 1) i ys } else Some xs)"

text \<open>\<open>symMerge_func(data, a, m, b)\<close>.\<close>

partial_function (option) symMerge ::
  "'a lessFn \<Rightarrow> nat \<Rightarrow> nat \<Rightarrow> nat \<Rightarrow> 'a list \<Rightarrow> 'a list option" where
  "symMerge cmp a m b xs =
     (if m - a = 1 then
        do { i \<leftarrow> searchLow cmp xs a m b; swapUp a i xs }
      else if b - m = 1 then
        do { i \<leftarrow> searchHigh cmp xs m a m; swapDown m i xs }
      else
        (let mid = (a + b) div 2;
             n = mid + m;
             start = (if m > mid then n - b else a);
             r = (if m > mid then mid else m);
             p = n - 1
         in do {
              start \<leftarrow> searchSym cmp xs p start r;
              let e = n - start;
              ys \<leftarrow> (if start < m \<and> m < e then rotate_func start m e xs else Some xs);
              zs \<leftarrow> (if a < start \<and> start < mid then symMerge cmp a start mid ys else Some ys);
              if mid < e \<and> e < b then symMerge cmp mid e b zs else Some zs
            }))"

text \<open>\<open>stable_func(data, n)\<close>: the loop of insertion sorts on the blocks, the loop of merges
  of one pass, the loop of the passes.\<close>

partial_function (option) sortBlocks ::
  "'a lessFn \<Rightarrow> nat \<Rightarrow> nat \<Rightarrow> nat \<Rightarrow> nat \<Rightarrow> 'a list \<Rightarrow> 'a list option" where
  "sortBlocks cmp blockSize a b n xs =
     (if b \<le> n then
        do { ys \<leftarrow> insertionSort cmp a b xs; sortBlocks cmp blockSize b (b + blockSize) n ys }
      else insertionSort cmp a n xs)"

partial_function (option) mergeBlocks ::
  "'a lessFn \<Rightarrow> nat \<Rightarrow> nat \<Rightarrow> nat \<Rightarrow> nat \<Rightarrow> 'a list \<Rightarrow> 'a list option" where
  "mergeBlocks cmp blockSize a b n xs =
     (if b \<le> n then
        do { ys \<leftarrow> symMerge cmp a (a + blockSize) b xs;
             mergeBlocks cmp blockSize b (b + 2 * blockSize) n ys }
      else (let m = a + blockSize
            in if m < n then symMerge cmp a m n xs else Some xs))"

partial_function (option) mergePasses ::
  "'a lessFn \<Rightarrow> nat \<Rightarrow> nat \<Rightarrow> 'a list \<Rightarrow> 'a list option" where
  "mergePasses cmp blockSize n xs =
     (if blockSize < n then
        do { ys \<leftarrow> mergeBlocks cmp blockSize 0 (2 * blockSize) n xs;
             mergePasses cmp (2 * blockSize) n ys }
      else Some xs)"

definition stable :: "'a lessFn \<Rightarrow> nat \<Rightarrow> 'a list \<Rightarrow> 'a list option" where
  "stable cmp n xs =
     do { ys \<leftarrow> sortBlocks cmp 20 0 20 n xs; mergePasses cmp 20 n ys }"

definition SliceStable :: "'a lessFn \<Rightarrow> 'a list \<Rightarrow> 'a list option" where
  "SliceStable cmp xs = stable cmp (length xs) xs"

declare insertDown.simps [code] insertionSortFrom.simps [code] swapRangeFrom.simps [code]
  rotateLoop.simps [code] searchLow.simps [code] searchHigh.simps [code] searchSym.simps [code]
  swapUp.simps [code] swapDown.simps [code] symMerge.simps [code] sortBlocks.simps [code]
  mergeBlocks.simps [code] mergePasses.simps [code]

text \<open>A closure that returns for all indices within a slice of \<open>n\<close> elements.\<close>

definition returns_on :: "nat \<Rightarrow> 'a lessFn \<Rightarrow> bool" where
  "returns_on n cmp \<longleftrightarrow> (\<forall>xs i j. length xs = n \<longrightarrow> i < n \<longrightarrow> j < n \<longrightarrow> cmp xs i j \<noteq> None)"

section \<open>The grouping writer\<close>

text \<open>
  The struct of the grouping writer.  \<open>GroupNode\<close> classifies a document into its group
  and its ordinal; \<open>GroupWriter\<close> returns the stream of a group (\<open>Inr None\<close> is the pair of
  \<open>nil\<close> and \<open>nil\<close>: no stream, no error).  Both fields may be \<open>nil\<close>, which is \<open>None\<close>.
  \<open>'s\<close> is the state of the world outside the program (the file system), \<open>'h\<close> the type
  of the streams.
\<close>

record ('s, 'h) GroupWriter =
  GroupNode :: "(RNode \<Rightarrow> error + string \<times> string) option"
  GroupWriter :: "(string \<Rightarrow> 's \<Rightarrow> (error + 'h option) \<times> 's) option"
  KeepReaderAnnotations :: bool
  ClearAnnotations :: "string list"
  Sort :: bool
  RestoreVerticalWhiteSpace :: bool

text \<open>
  What the grouping writer calls and this repository does not define:
  \<^item> \<open>GetFileAnnotations\<close>: \<open>kioutil.GetFileAnnotations\<close>, the path and the index of a
    document;
  \<^item> \<open>Create\<close>: \<open>os.Create\<close>;
  \<^item> \<open>WriteTo\<close>: \<open>Write\<close> of a \<open>kio.ByteWriter\<close> whose \<open>Writer\<close> is the given stream;
  \<^item> \<open>Close\<close>: the \<open>Close\<close> method of a stream that is an \<open>io.Closer\<close> (its error is
    dropped), \<open>None\<close> for a stream that is none.
\<close>

record ('s, 'h) GroupExternals =
  GetFileAnnotations :: "RNode \<Rightarrow> error + string \<times> string"
  Create :: "string \<Rightarrow> 's \<Rightarrow> (error + 'h) \<times> 's"
  WriteTo :: "'h \<Rightarrow> ByteWriter \<Rightarrow> RNode list \<Rightarrow> 's \<Rightarrow> error option \<times> 's"
  Close :: "'h \<Rightarrow> ('s \<Rightarrow> 's) option"

text \<open>
  A Go map from strings to slices, as the list of its entries in the order in which the
  keys were first assigned; \<open>appendTo g v m\<close> is \<open>m[g] = append(m[g], v)\<close>, and \<open>entry m g\<close>
  is \<open>m[g]\<close>, the empty slice for a key that is not there.
\<close>

fun appendTo :: "string \<Rightarrow> 'v \<Rightarrow> (string \<times> 'v list) list \<Rightarrow> (string \<times> 'v list) list" where
  "appendTo g v [] = [(g, [v])]"
| "appendTo g v ((k, vs) # m) =
     (if k = g then (k, vs @ [v]) # m else (k, vs) # appendTo g v m)"

definition entry :: "(string \<times> 'v list) list \<Rightarrow> string \<Rightarrow> 'v list" where
  "entry m g = (case map_of m g of None \<Rightarrow> [] | Some vs \<Rightarrow> vs)"

text \<open>The first loop of \<open>indexNodes\<close>: every document is classified and appended to its
  group, its ordinal to the ordinals of the group; the first error ends the loop.\<close>

fun classify ::
  "(RNode \<Rightarrow> error + string \<times> string) \<Rightarrow> RNode list
     \<Rightarrow> (string \<times> RNode list) list \<Rightarrow> (string \<times> string list) list
     \<Rightarrow> error + (string \<times> RNode list) list \<times> (string \<times> string list) list" where
  "classify groupNode [] result ordinal = Inr (result, ordinal)"
| "classify groupNode (n # nodes) result ordinal =
     (case groupNode n of
        Inl err \<Rightarrow> Inl err
      | Inr (g, ord) \<Rightarrow> classify groupNode nodes (appendTo g n result) (appendTo g ord ordinal))"

text \<open>
  The closure passed to \<open>sort.SliceStable\<close>: it compares the ordinals at the two indices,
  as numbers when both are numbers, as strings otherwise.  The ordinals are read from
  \<open>ordinal[group]\<close>, which the sort does not change: the closure does not look at the
  slice that is being sorted.
\<close>

definition ordinalLess :: "string list \<Rightarrow> 'a lessFn" where
  "ordinalLess ords nodes i j =
     (if i < length ords \<and> j < length ords then
        Some (case (Atoi (ords ! i), Atoi (ords ! j)) of
                (Some oi, Some oj) \<Rightarrow> oi < oj
              | _ \<Rightarrow> stringLess (ords ! i) (ords ! j))
      else None)"

text \<open>The second loop of \<open>indexNodes\<close>: the documents of every group are sorted.\<close>

fun sortGroups ::
  "(string \<times> string list) list \<Rightarrow> (string \<times> RNode list) list
     \<Rightarrow> (string \<times> RNode list) list option" where
  "sortGroups ordinal [] = Some []"
| "sortGroups ordinal ((g, nodes) # result) =
     do {
       srt \<leftarrow> SliceStable (ordinalLess (entry ordinal g)) nodes;
       rest \<leftarrow> sortGroups ordinal result;
       Some ((g, srt) # rest)
     }"

definition indexNodes ::
  "(RNode \<Rightarrow> error + string \<times> string) \<Rightarrow> RNode list
     \<Rightarrow> (error + (string \<times> RNode list) list) option" where
  "indexNodes groupNode nodes =
     (case classify groupNode nodes [] [] of
        Inl err \<Rightarrow> Some (Inl err)
      | Inr (result, ordinal) \<Rightarrow>
          do { srt \<leftarrow> sortGroups ordinal result; Some (Inr srt) })"

text \<open>The classifier, the annotations to clear and the factory of the streams after the
  defaults are filled in.\<close>

definition groupNodeOf ::
  "('s, 'h) GroupExternals \<Rightarrow> ('s, 'h) GroupWriter \<Rightarrow> RNode \<Rightarrow> error + string \<times> string" where
  "groupNodeOf X w = (case GroupNode w of None \<Rightarrow> GetFileAnnotations X | Some f \<Rightarrow> f)"

definition clearAnnotationsOf :: "('s, 'h) GroupWriter \<Rightarrow> string list" where
  "clearAnnotationsOf w =
     (if GroupNode w = None \<and> \<not> GroupWriter.KeepReaderAnnotations w
      then GroupWriter.ClearAnnotations w @ [PathAnnotation, IndexAnnotation]
      else GroupWriter.ClearAnnotations w)"

definition groupWriterOf ::
  "('s, 'h) GroupExternals \<Rightarrow> ('s, 'h) GroupWriter
     \<Rightarrow> string \<Rightarrow> 's \<Rightarrow> (error + 'h option) \<times> 's" where
  "groupWriterOf X w =
     (case GroupWriter w of
        None \<Rightarrow>
          (\<lambda>name s.
             if name = [] then (Inr None, s)
             else (case Create X name s of
                     (Inl err, s') \<Rightarrow> (Inl err, s')
                   | (Inr file, s') \<Rightarrow> (Inr (Some file), s')))
      | Some f \<Rightarrow> f)"

text \<open>The loop over the groups: the stream is obtained, the documents are written, the
  stream is closed, and the first error ends the loop.\<close>

fun writeGroups ::
  "('s, 'h) GroupExternals \<Rightarrow> ('s, 'h) GroupWriter \<Rightarrow> (string \<times> RNode list) list \<Rightarrow> 's
     \<Rightarrow> error option \<times> 's" where
  "writeGroups X w [] s = (None, s)"
| "writeGroups X w ((path, nodes) # indexed) s =
     (case groupWriterOf X w path s of
        (Inl err, s1) \<Rightarrow> (Some err, s1)
      | (Inr None, s1) \<Rightarrow> writeGroups X w indexed s1
      | (Inr (Some out), s1) \<Rightarrow>
          (case WriteTo X out
                  \<lparr>ByteWriter.KeepReaderAnnotations = GroupWriter.KeepReaderAnnotations w,
                   ClearAnnotations = clearAnnotationsOf w,
                   Sort = GroupWriter.Sort w\<rparr> nodes s1 of
             (err, s2) \<Rightarrow>
               (let s3 = (case Close X out of Some close \<Rightarrow> close s2 | None \<Rightarrow> s2)
                in case err of
                     Some e \<Rightarrow> (Some e, s3)
                   | None \<Rightarrow> writeGroups X w indexed s3)))"

text \<open>
  \<open>GroupWriter.Write\<close>.  \<open>range\<close> yields the entries of the map \<open>indexed\<close> in an order that
  Go does not fix: \<open>order\<close> is that order.  The result is \<open>None\<close> when the call does not
  return.
\<close>

definition GroupWriter_Write ::
  "((string \<times> RNode list) list \<Rightarrow> (string \<times> RNode list) list)
     \<Rightarrow> ('s, 'h) GroupExternals \<Rightarrow> ('s, 'h) GroupWriter \<Rightarrow> RNode list \<Rightarrow> 's
     \<Rightarrow> (error option \<times> 's) option" where
  "GroupWriter_Write order X w nodes s =
     (let nodes = (if GroupWriter.RestoreVerticalWhiteSpace w
                   then restoreVerticalWhiteSpace nodes else nodes)
      in case indexNodes (groupNodeOf X w) nodes of
           None \<Rightarrow> None
         | Some (Inl err) \<Rightarrow> Some (Some err, s)
         | Some (Inr indexed) \<Rightarrow> Some (writeGroups X w (order indexed) s))"

subsection \<open>Names for the statements about the grouping writer\<close>

text \<open>The documents as \<open>indexNodes\<close> receives them, the group a classifier gives a
  document, and what a loop over the groups writes when \<open>factory\<close> tells the stream of
  each group: one entry for each group with a stream, with the documents of the group.\<close>

definition prepared :: "('s, 'h) GroupWriter \<Rightarrow> RNode list \<Rightarrow> RNode list" where
  "prepared w nodes =
     (if GroupWriter.RestoreVerticalWhiteSpace w then restoreVerticalWhiteSpace nodes else nodes)"

text \<open>A document as the white space restorer leaves it when it is switched on; the
  restorer works on every document of the sequence, one by one.\<close>

definition restored :: "('s, 'h) GroupWriter \<Rightarrow> RNode \<Rightarrow> RNode" where
  "restored w n =
     (if GroupWriter.RestoreVerticalWhiteSpace w then n\<lparr>YNode := restoreNode (YNode n)\<rparr> else n)"

definition groupOf :: "(RNode \<Rightarrow> error + string \<times> string) \<Rightarrow> RNode \<Rightarrow> string" where
  "groupOf groupNode n = (case groupNode n of Inr (g, ord) \<Rightarrow> g | Inl err \<Rightarrow> [])"

definition written ::
  "(string \<Rightarrow> error + 'h option) \<Rightarrow> (string \<times> RNode list) list \<Rightarrow> ('h \<times> RNode list) list" where
  "written factory groups =
     concat (map (\<lambda>(g, ds). case factory g of Inr (Some out) \<Rightarrow> [(out, ds)] | _ \<Rightarrow> []) groups)"

section \<open>Libraries and documents for the examples\<close>

text \<open>
  A plain instance of the libraries: the output stream is the list of the writes made to
  it, nothing fails, every selector matches, the kind of a document is the value of its
  field \<open>kind\<close>, its data map is the pairs of its field \<open>data\<close> in the order of the
  document, and \<open>$SHELL\<close> is not set.  The text of a document is its rendering in the
  manner of JSON, with the scalars as they are: a mapping as \<open>{k:v,...}\<close>, a sequence as
  \<open>[x,...]\<close>.  The documents of the examples carry no annotation, so clearing one leaves
  them as they are.  Of the tables of Unicode it has the two entries that lead into
  ASCII, \<open>U+0130\<close> to \<open>i\<close> and \<open>U+212A\<close> to \<open>k\<close>; no other rune changes its case and every
  rune beyond \<open>U+00FF\<close> is printable.
\<close>

fun renderFields :: "string list \<Rightarrow> string list" where
  "renderFields (k # v # rest) = (k @ '':'' @ v) # renderFields rest"
| "renderFields rest = []"

fun render :: "Node \<Rightarrow> string" where
  "render (Node k v h f l cs) =
     (case k of
        ScalarNode \<Rightarrow> v
      | MappingNode \<Rightarrow> ''{'' @ Join (renderFields (map render cs)) '','' @ ''}''
      | SequenceNode \<Rightarrow> ''['' @ Join (map render cs) '','' @ '']''
      | _ \<Rightarrow> concat (map render cs))"

fun pairsOf :: "Node list \<Rightarrow> (string \<times> string) list" where
  "pairsOf (key # v # rest) = (Value key, Value v) # pairsOf rest"
| "pairsOf rest = []"

definition plain :: "(string list, unit, unit, unit) Externals" where
  "plain =
     \<lparr>Write = (\<lambda>b s. (None, s @ [b])),
      ByteWriter_Write = (\<lambda>w nodes s. (None, s)),
      SortNodes = Inr,
      ClearAnnotation = (\<lambda>a n. Inr n),
      Marshal = (\<lambda>n. Inr (render (YNode n))),
      Parse = (\<lambda>f t. Inr ()),
      Decode = (\<lambda>n. Inr ()),
      Execute = (\<lambda>out t d s. (None, s)),
      Flush = (\<lambda>out. None),
      MatchesLabelSelector = (\<lambda>n sel. Inr True),
      GetMeta = (\<lambda>n. Inr \<lparr>APIVersion = ''v1'',
                  TypeKind = (case field ''kind'' (YNode n) of Some v \<Rightarrow> Value v | None \<Rightarrow> [])\<rparr>),
      GetDataMap = (\<lambda>n. case field ''data'' (YNode n) of
                           Some v \<Rightarrow> pairsOf (Content v) | None \<Rightarrow> []),
      Getenv = (\<lambda>name. []),
      LowerTable = (\<lambda>r. if r = 0x130 then 0x69 else if r = 0x212A then 0x6B else r),
      UpperTable = (\<lambda>r. r),
      PrintTable = (\<lambda>r. True)\<rparr>"

text \<open>A document of the given kind with the given data.\<close>

definition resource :: "string \<Rightarrow> (string \<times> string) list \<Rightarrow> RNode" where
  "resource kind kvs =
     \<lparr>YNode = Node MappingNode [] [] [] 1
        [scalar ''kind'', scalar kind,
         scalar ''data'',
         Node MappingNode [] [] [] 2 (concat (map (\<lambda>(k, v). [scalar k, scalar v]) kvs))]\<rparr>"

text \<open>A format-dispatching writer with the given format and no option set.\<close>

definition writer :: "string \<Rightarrow> unit Writer" where
  "writer fmt =
     \<lparr>Format = fmt, KeepReaderAnnotations = False, ClearAnnotations = [], Sort = False,
      RestoreVerticalWhiteSpace = False, Functions = None\<rparr>"

definition three_documents :: "RNode list" where
  "three_documents =
     [resource ''ConfigMap'' [(''A'', ''1'')], resource ''Secret'' [(''B'', ''Mg=='')],
      resource ''ConfigMap'' []]"

text \<open>The same libraries with an output stream that fails on every write, with a
  selector whose evaluation fails, and with a selector that no document matches.\<close>

definition failing :: "(string list, unit, unit, unit) Externals" where
  "failing = plain\<lparr>Write := (\<lambda>b s. (Some (ErrorString ''write failed''), s))\<rparr>"

definition bad_selector :: "(string list, unit, unit, unit) Externals" where
  "bad_selector =
     plain\<lparr>MatchesLabelSelector := (\<lambda>n sel. Inl (ErrorString ''invalid selector''))\<rparr>"

definition no_match :: "(string list, unit, unit, unit) Externals" where
  "no_match = plain\<lparr>MatchesLabelSelector := (\<lambda>n sel. Inr False)\<rparr>"

text \<open>A secret with the value \<open>test\<close> under \<open>FOO\<close>, a file under \<open>app.config\<close> and a value of
  two lines under \<open>MULTI\<close>, all encoded.\<close>

definition secret_doc :: RNode where
  "secret_doc =
     resource ''Secret''
       [(''FOO'', ''dGVzdA==''), (''app.config'', ''eA==''), (''MULTI'', ''YQpi'')]"

text \<open>A secret whose value under \<open>FOO\<close> decodes to the byte \<open>0xFF\<close>, which is no valid
  UTF-8, and the encoding of the no-break space \<open>U+00A0\<close>; and the shell name \<open>FISH\<close> written
  with the capital dotted I, \<open>U+0130\<close>.\<close>

definition raw_secret :: RNode where
  "raw_secret = resource ''Secret'' [(''FOO'', ''/8Kg'')]"

definition dotted_fish :: string where
  "dotted_fish = ''F'' @ [CHR 0xC4, CHR 0xB0] @ ''SH''"

text \<open>A document that carries its group and its ordinal in the fields \<open>group\<close> and
  \<open>ordinal\<close>, and the classifier that reads them; it fails on a document without a
  group.\<close>

definition grouped :: "string \<Rightarrow> string \<Rightarrow> string \<Rightarrow> RNode" where
  "grouped name g ord =
     \<lparr>YNode = Node MappingNode [] [] [] 1
        [scalar ''name'', scalar name, scalar ''group'', scalar g,
         scalar ''ordinal'', scalar ord]\<rparr>"

definition byFields :: "RNode \<Rightarrow> error + string \<times> string" where
  "byFields n =
     (case (field ''group'' (YNode n), field ''ordinal'' (YNode n)) of
        (Some g, Some ord) \<Rightarrow> Inr (Value g, Value ord)
      | _ \<Rightarrow> Inl (ErrorString ''no group''))"

text \<open>The world as the list of the writes made, each with the stream and the documents;
  a stream is the name of its group, and the group with the empty name has none.\<close>

definition logging :: "((string \<times> RNode list) list, string) GroupExternals" where
  "logging =
     \<lparr>GetFileAnnotations = byFields,
      Create = (\<lambda>name s. (Inr name, s)),
      WriteTo = (\<lambda>out w nodes s. (None, s @ [(out, nodes)])),
      Close = (\<lambda>out. None)\<rparr>"

definition grouping :: "((string \<times> RNode list) list, string) GroupWriter" where
  "grouping =
     \<lparr>GroupNode = Some byFields, GroupWriter = None, KeepReaderAnnotations = False,
      ClearAnnotations = [], Sort = False, RestoreVerticalWhiteSpace = False\<rparr>"

text \<open>Three documents of one group with the ordinals 1, 2 and 0, and three documents of
  which the second has no group.\<close>

definition out_of_order :: "RNode list" where
  "out_of_order = [grouped ''A'' ''f'' ''1'', grouped ''B'' ''f'' ''2'', grouped ''C'' ''f'' ''0'']"

definition one_unclassified :: "RNode list" where
  "one_unclassified = [grouped ''A'' ''f'' ''1'', \<lparr>YNode = scalar ''B''\<rparr>, grouped ''C'' ''g'' ''0'']"

text \<open>The streams that the default factory gives when \<open>os.Create\<close> returns the name as the
  stream: none for the group with the empty name.\<close>

definition named_streams :: "string \<Rightarrow> error + string option" where
  "named_streams name = (if name = [] then Inr None else Inr (Some name))"

text \<open>
  A world that keeps the writes made and the streams closed, in which every stream is an
  \<open>io.Closer\<close>; a grouping writer with the white space restorer switched on; and documents
  read from a text with two blank lines before the field \<open>ordinal\<close>, as they are read and
  as the restorer leaves them; four of them, of the groups \<open>f\<close>, \<open>g\<close>, \<open>f\<close> and the group
  with the empty name.
\<close>

definition files :: "((string \<times> RNode list) list \<times> string list, string) GroupExternals" where
  "files =
     \<lparr>GetFileAnnotations = byFields,
      Create = (\<lambda>name s. (Inr name, s)),
      WriteTo = (\<lambda>out w nodes s. (None, (fst s @ [(out, nodes)], snd s))),
      Close = (\<lambda>out. Some (\<lambda>s. (fst s, snd s @ [out])))\<rparr>"

definition regrouping ::
  "((string \<times> RNode list) list \<times> string list, string) GroupWriter" where
  "regrouping =
     \<lparr>GroupNode = Some byFields, GroupWriter = None, KeepReaderAnnotations = False,
      ClearAnnotations = [], Sort = False, RestoreVerticalWhiteSpace = True\<rparr>"

definition spaced :: "string \<Rightarrow> string \<Rightarrow> string \<Rightarrow> RNode" where
  "spaced name g ord =
     \<lparr>YNode = Node MappingNode [] [] [] 1
        [Node ScalarNode ''name'' [] [] 1 [], Node ScalarNode name [] [] 1 [],
         Node ScalarNode ''group'' [] [] 2 [], Node ScalarNode g [] [] 2 [],
         Node ScalarNode ''ordinal'' [] [] 5 [], Node ScalarNode ord [] [] 5 []]\<rparr>"

definition respaced :: "string \<Rightarrow> string \<Rightarrow> string \<Rightarrow> RNode" where
  "respaced name g ord =
     \<lparr>YNode = Node MappingNode [] [] [] 1
        [Node ScalarNode ''name'' [] [] 1 [], Node ScalarNode name [] [] 1 [],
         Node ScalarNode ''group'' [] [] 2 [], Node ScalarNode g [] [] 2 [],
         Node ScalarNode ''ordinal'' [CHR 0x0A, CHR 0x0A] [] 5 [],
         Node ScalarNode ord [] [] 5 []]\<rparr>"

definition spaced_documents :: "RNode list" where
  "spaced_documents =
     [spaced ''A'' ''f'' ''1'', spaced ''B'' ''g'' ''2'', spaced ''C'' ''f'' ''0'',
      spaced ''D'' [] ''0'']"

section \<open>Properties of the command-output reader\<close>

lemma size_Wrapped_neq: "Wrapped m e \<noteq> e"
proof
  assume "Wrapped m e = e"
  then have "size (Wrapped m e) = size e" by simp
  then show False by simp
qed

text \<open>
  Claim C8, as the code has it: when the invocation fails with an exit error (the process
  ran and exited with a failure, found by \<open>errors.As\<close>), the returned error carries the
  base name of the program's path, the text of the process error, and the error stream
  trimmed of surrounding white space and of a leading \<open>Error: \<close>; it wraps the process
  error and is never that error alone.  A failure that is no exit error is returned as
  it is.
\<close>

theorem command_Read_failure:
  "command_Read FromBytes cmd (Inl err) =
     (case asExitError err of
        Some stderr \<Rightarrow>
          Inl (Wrapped (Base (Path cmd) @ '' '' @ Error err @ '': ''
                          @ TrimPrefix (TrimSpace stderr) ''Error: '') err)
      | None \<Rightarrow> Inl err)
   \<and> (asExitError err \<noteq> None \<longrightarrow> command_Read FromBytes cmd (Inl err) \<noteq> Inl err)"
  by (auto simp: command_Read_def Let_def size_Wrapped_neq split: option.splits)

theorem command_Read_failure_witness:
  "asExitError (ExitError ''exit status 1'' ''Error: chart not found\<newline>'') \<noteq> None
   \<and> command_Read (\<lambda>out. Inr ([] :: unit list)) \<lparr>Path = ''/usr/local/bin/helm''\<rparr>
        (Inl (ExitError ''exit status 1'' ''Error: chart not found\<newline>''))
     = Inl (Wrapped ''helm exit status 1: chart not found''
              (ExitError ''exit status 1'' ''Error: chart not found\<newline>''))"
proof -
  have ts: "TrimSpace ''Error: chart not found\<newline>'' = ''Error: chart not found''"
    by code_simp
  have b: "Base ''/usr/local/bin/helm'' = ''helm''"
    by code_simp
  show ?thesis
    using command_Read_failure [of "\<lambda>out. Inr ([] :: unit list)"
        "\<lparr>Path = ''/usr/local/bin/helm''\<rparr>"
        "ExitError ''exit status 1'' ''Error: chart not found\<newline>''"]
    by (simp add: ts b TrimPrefix_def)
qed

text \<open>
  Claim C8 as stated fails: a failed invocation whose error is no exit error (here: the
  program was not found) gets the raw error back, alone.
\<close>

theorem command_Read_raw_counterexample:
  "command_Read (\<lambda>out. Inr ([] :: unit list)) \<lparr>Path = ''helm''\<rparr>
     (Inl (ErrorString ''exec: \"helm\": executable file not found in $PATH''))
   = Inl (ErrorString ''exec: \"helm\": executable file not found in $PATH'')"
  by (simp add: command_Read_def)

section \<open>Properties of the vertical white space restorer\<close>

lemma lastLine_setHeadComment [simp]: "lastLine (setHeadComment h n) = lastLine n"
  by (cases n) (simp add: setHeadComment_def)

lemma sel_setHeadComment [simp]:
  "Line (setHeadComment h n) = Line n" "FootComment (setHeadComment h n) = FootComment n"
  "Kind (setHeadComment h n) = Kind n" "Value (setHeadComment h n) = Value n"
  "Content (setHeadComment h n) = Content n" "HeadComment (setHeadComment h n) = h"
  by (simp_all add: setHeadComment_def)

lemma restoredChild_sel [simp]:
  "Line (restoredChild k l os j) = Line (os ! j)"
  "FootComment (restoredChild k l os j) = FootComment (os ! j)"
  "lastLine (restoredChild k l os j) = lastLine (os ! j)"
  by (simp_all add: restoredChild_def)






section \<open>Properties of the format-dispatching writer\<close>

lemma IndexRune_neg_iff: "IndexRune s c < 0 \<longleftrightarrow> c \<notin> set s"
  by (induction s) (auto simp: Let_def)

lemma IndexRune_ge: "- 1 \<le> IndexRune s c"
  by (induction s) (auto simp: Let_def)

lemma IndexRune_takeWhile:
  "c \<in> set s \<Longrightarrow> take (nat (IndexRune s c)) s = takeWhile (\<lambda>x. x \<noteq> c) s"
proof (induction s)
  case Nil
  then show ?case by simp
next
  case (Cons x xs)
  show ?case
  proof (cases "x = c")
    case True
    then show ?thesis by simp
  next
    case False
    with Cons.prems have mem: "c \<in> set xs" by simp
    then have nn: "\<not> IndexRune xs c < 0" by (simp add: IndexRune_neg_iff)
    then have "nat (IndexRune xs c + 1) = Suc (nat (IndexRune xs c))" by simp
    with False nn Cons.IH [OF mem] show ?thesis by (simp add: Let_def)
  qed
qed

lemma lowerChar_eq_char: "lowerChar c = CHR ''='' \<longleftrightarrow> c = CHR ''=''"
proof (cases "65 \<le> (of_char c :: nat) \<and> (of_char c :: nat) \<le> 90")
  case True
  have "char_of ((of_char c :: nat) + 32) \<noteq> CHR ''=''"
  proof
    assume "char_of ((of_char c :: nat) + 32) = CHR ''=''"
    then have "(of_char (char_of ((of_char c :: nat) + 32)) :: nat) = of_char (CHR ''='')"
      by simp
    then have "((of_char c :: nat) + 32) mod 256 = 61" by (simp add: of_char_of)
    moreover have "((of_char c :: nat) + 32) mod 256 = of_char c + 32"
      using True by simp
    ultimately show False using True by simp
  qed
  moreover have "c \<noteq> CHR ''=''" using True by auto
  ultimately show ?thesis using True by (simp add: lowerChar_def)
next
  case False
  then show ?thesis by (auto simp: lowerChar_def)
qed

lemma ToLower_map: "ToLower s = map lowerChar s"
  by (simp add: ToLower_def)

lemma ToLower_eq_char: "CHR ''='' \<in> set (ToLower s) \<longleftrightarrow> CHR ''='' \<in> set s"
proof
  assume "CHR ''='' \<in> set (ToLower s)"
  then obtain x where "x \<in> set s" "lowerChar x = CHR ''=''"
    by (auto simp: ToLower_map)
  then show "CHR ''='' \<in> set s" by (simp add: lowerChar_eq_char)
next
  assume "CHR ''='' \<in> set s"
  moreover have "lowerChar (CHR ''='') = CHR ''=''" by (simp add: lowerChar_eq_char)
  ultimately show "CHR ''='' \<in> set (ToLower s)"
    by (force simp: ToLower_map image_iff)
qed

lemma takeWhile_ToLower:
  "takeWhile (\<lambda>x. x \<noteq> CHR ''='') (ToLower s) = ToLower (takeWhile (\<lambda>x. x \<noteq> CHR ''='') s)"
  by (induction s) (simp_all add: ToLower_map lowerChar_eq_char)

lemma formatName_eq:
  "formatName fmt =
     (if CHR ''='' \<in> set fmt then ToLower (takeWhile (\<lambda>c. c \<noteq> CHR ''='') fmt)
      else if Contains (ToLower fmt) ''{{'' then ''template''
      else ToLower fmt)"
proof (cases "CHR ''='' \<in> set fmt")
  case True
  then have mem: "CHR ''='' \<in> set (ToLower fmt)" by (simp add: ToLower_eq_char)
  then have pos: "0 \<le> IndexRune (ToLower fmt) (CHR ''='')"
    using IndexRune_neg_iff [of "ToLower fmt" "CHR ''=''"] by simp
  have "take (nat (IndexRune (ToLower fmt) (CHR ''=''))) (ToLower fmt)
        = ToLower (takeWhile (\<lambda>c. c \<noteq> CHR ''='') fmt)"
    using IndexRune_takeWhile [OF mem] by (simp add: takeWhile_ToLower)
  with True pos show ?thesis by (simp add: formatName_def templateStart_def Let_def)
next
  case False
  then have "CHR ''='' \<notin> set (ToLower fmt)" by (simp add: ToLower_eq_char)
  then have "IndexRune (ToLower fmt) (CHR ''='') < 0" by (simp add: IndexRune_neg_iff)
  moreover have "- 1 \<le> IndexRune (ToLower fmt) (CHR ''='')" by (rule IndexRune_ge)
  ultimately have "IndexRune (ToLower fmt) (CHR ''='') = - 1" by simp
  with False show ?thesis by (simp add: formatName_def templateStart_def Let_def)
qed

text \<open>
  Claim C6.  The dispatched name of a format specifier is the part before the first \<open>=\<close>
  in lower case, or \<open>template\<close> for a specifier with \<open>{{\<close> and no \<open>=\<close>, or else the
  specifier in lower case.  When that name is none of the recognised formats, the
  writer returns the error \<open>unknown format: \<close> followed by the specifier as given, and the
  output stream is as it was.
\<close>

theorem Writer_Write_unknown_format:
  "formatName (Format w) =
     (if CHR ''='' \<in> set (Format w) then ToLower (takeWhile (\<lambda>c. c \<noteq> CHR ''='') (Format w))
      else if Contains (ToLower (Format w)) ''{{'' then ''template''
      else ToLower (Format w))
   \<and> (formatName (Format w) \<notin>
         {''yaml'', [], ''json'', ''ndjson'', ''env'', ''name'', ''template'', ''go-template'',
          ''columns'', ''custom-columns''}
       \<longrightarrow> Writer_Write X w nodes s
             = (Some (ErrorString (''unknown format: '' @ Format w)), s))"
proof
  show "formatName (Format w) =
     (if CHR ''='' \<in> set (Format w) then ToLower (takeWhile (\<lambda>c. c \<noteq> CHR ''='') (Format w))
      else if Contains (ToLower (Format w)) ''{{'' then ''template''
      else ToLower (Format w))"
    by (rule formatName_eq)
next
  show "formatName (Format w) \<notin>
         {''yaml'', [], ''json'', ''ndjson'', ''env'', ''name'', ''template'', ''go-template'',
          ''columns'', ''custom-columns''}
       \<longrightarrow> Writer_Write X w nodes s
             = (Some (ErrorString (''unknown format: '' @ Format w)), s)"
  proof
    assume "formatName (Format w) \<notin>
         {''yaml'', [], ''json'', ''ndjson'', ''env'', ''name'', ''template'', ''go-template'',
          ''columns'', ''custom-columns''}"
    then have "selectWriter X w nodes = (None, nodes)"
      by (simp add: selectWriter_def Let_def)
    then show "Writer_Write X w nodes s
             = (Some (ErrorString (''unknown format: '' @ Format w)), s)"
      by (simp add: Writer_Write_def)
  qed
qed

theorem Writer_Write_unknown_format_witness:
  "formatName (Format (writer ''XML=1'')) \<notin>
         {''yaml'', [], ''json'', ''ndjson'', ''env'', ''name'', ''template'', ''go-template'',
          ''columns'', ''custom-columns''}
   \<and> Writer_Write plain (writer ''XML=1'') [resource ''ConfigMap'' [(''FOO'', ''bar'')]] []
     = (Some (ErrorString ''unknown format: XML=1''), [])"
proof -
  have f: "Format (writer ''XML=1'') = ''XML=1''" by (simp add: writer_def)
  have n: "formatName ''XML=1'' = ''xml''" by code_simp
  show ?thesis
    using Writer_Write_unknown_format [of "writer ''XML=1''" plain
        "[resource ''ConfigMap'' [(''FOO'', ''bar'')]]" "[]", THEN conjunct2]
    by (simp add: f n)
qed

section \<open>Properties of the JSON writer\<close>

lemma clearNodes_Inr:
  "list_all2 (\<lambda>n d. clearEach X
       ((if \<not> JSONWriter.KeepReaderAnnotations w then [IndexAnnotation] else [])
          @ JSONWriter.ClearAnnotations w) n = Inr d) ns docs
   \<Longrightarrow> clearNodes X w ns = Inr docs"
  by (induction ns docs rule: list_all2_induct) simp_all

lemma clearNodes_Inl:
  "i < length ns \<Longrightarrow>
   clearEach X ((if \<not> JSONWriter.KeepReaderAnnotations w then [IndexAnnotation] else [])
                  @ JSONWriter.ClearAnnotations w) (ns ! i) = Inl err \<Longrightarrow>
   \<forall>j<i. \<exists>d. clearEach X
       ((if \<not> JSONWriter.KeepReaderAnnotations w then [IndexAnnotation] else [])
          @ JSONWriter.ClearAnnotations w) (ns ! j) = Inr d \<Longrightarrow>
   clearNodes X w ns = Inl err"
proof (induction ns arbitrary: i)
  case Nil
  then show ?case by simp
next
  case (Cons n ns)
  show ?case
  proof (cases i)
    case 0
    with Cons.prems show ?thesis by simp
  next
    case (Suc i')
    from Cons.prems(3) Suc obtain d where d: "clearEach X
       ((if \<not> JSONWriter.KeepReaderAnnotations w then [IndexAnnotation] else [])
          @ JSONWriter.ClearAnnotations w) n = Inr d"
      by fastforce
    have "clearNodes X w ns = Inl err"
    proof (rule Cons.IH [of i'])
      show "i' < length ns" using Cons.prems(1) Suc by simp
      show "clearEach X ((if \<not> JSONWriter.KeepReaderAnnotations w then [IndexAnnotation] else [])
                  @ JSONWriter.ClearAnnotations w) (ns ! i') = Inl err"
        using Cons.prems(2) Suc by simp
      show "\<forall>j<i'. \<exists>d. clearEach X
         ((if \<not> JSONWriter.KeepReaderAnnotations w then [IndexAnnotation] else [])
            @ JSONWriter.ClearAnnotations w) (ns ! j) = Inr d"
      proof (intro allI impI)
        fix j assume "j < i'"
        then have "Suc j < i" using Suc by simp
        with Cons.prems(3) show "\<exists>d. clearEach X
         ((if \<not> JSONWriter.KeepReaderAnnotations w then [IndexAnnotation] else [])
            @ JSONWriter.ClearAnnotations w) (ns ! j) = Inr d"
          by fastforce
      qed
    qed
    with d show ?thesis by simp
  qed
qed

lemma wrap_fields:
  "field ''apiVersion'' (YNode (wrap a k docs)) = Some (scalar a)"
  "field ''kind'' (YNode (wrap a k docs)) = Some (scalar k)"
  "field ''items'' (YNode (wrap a k docs)) = Some (Node SequenceNode [] [] [] 0 (map YNode docs))"
  by (simp_all add: wrap_def NewRNode_def field_def scalar_def Let_def)

text \<open>
  Claim C5.  With the \<open>json\<close> format, whatever the other options: when the library calls
  succeed (sorting when it is asked for, clearing the annotations of each document, and
  encoding), the writer makes exactly one write to the output stream, of the JSON text of
  one document followed by a newline, and returns what that write returns.  The document
  is a mapping whose field \<open>kind\<close> is \<open>List\<close>, whose field \<open>apiVersion\<close> is \<open>v1\<close> and whose
  field \<open>items\<close> is a sequence with one entry for each document: the input documents,
  sorted when sorting is asked for, each with its annotations cleared, in that order.
  There are as many items as input documents, given that \<open>kioutil.SortNodes\<close>, which sorts
  the slice in place, returns as many documents as it gets.  The writer returns an error
  without a write exactly when a library call fails: the sort, the clearing of the first
  document that cannot be cleared, or the encoding; the error is that of the call.
\<close>

theorem Writer_Write_json:
  assumes "formatName (Format w) = ''json''"
  shows
    "(\<forall>err. Writer.Sort w \<and> SortNodes X nodes = Inl err
         \<longrightarrow> Writer_Write X w nodes s = (Some err, s))
   \<and> (\<forall>sorted.
        (if Writer.Sort w then SortNodes X nodes = Inr sorted else sorted = nodes) \<longrightarrow>
          (\<forall>i err.
             i < length sorted
           \<and> clearEach X
               ((if \<not> Writer.KeepReaderAnnotations w then [IndexAnnotation] else [])
                  @ Writer.ClearAnnotations w) (sorted ! i) = Inl err
           \<and> (\<forall>j<i. \<exists>d. clearEach X
                 ((if \<not> Writer.KeepReaderAnnotations w then [IndexAnnotation] else [])
                    @ Writer.ClearAnnotations w) (sorted ! j) = Inr d)
           \<longrightarrow> Writer_Write X w nodes s = (Some err, s))
        \<and> (\<forall>docs.
             list_all2 (\<lambda>n d. clearEach X
               ((if \<not> Writer.KeepReaderAnnotations w then [IndexAnnotation] else [])
                  @ Writer.ClearAnnotations w) n = Inr d) sorted docs \<longrightarrow>
               length docs = length sorted
             \<and> ((\<forall>ns ns'. SortNodes X ns = Inr ns' \<longrightarrow> length ns' = length ns)
                  \<longrightarrow> length docs = length nodes)
             \<and> field ''kind'' (YNode (wrap ''v1'' ''List'' docs)) = Some (scalar ''List'')
             \<and> field ''apiVersion'' (YNode (wrap ''v1'' ''List'' docs)) = Some (scalar ''v1'')
             \<and> field ''items'' (YNode (wrap ''v1'' ''List'' docs))
                 = Some (Node SequenceNode [] [] [] 0 (map YNode docs))
             \<and> (\<forall>err. Marshal X (wrap ''v1'' ''List'' docs) = Inl err
                   \<longrightarrow> Writer_Write X w nodes s = (Some err, s))
             \<and> (\<forall>js. Marshal X (wrap ''v1'' ''List'' docs) = Inr js
                   \<longrightarrow> Writer_Write X w nodes s = Write X (js @ [CHR 0x0A]) s)))"
proof -
  let ?jw = "\<lparr>JSONWriter.KeepReaderAnnotations = Writer.KeepReaderAnnotations w,
              ClearAnnotations = Writer.ClearAnnotations w,
              WrappingKind = ''List'',
              WrappingAPIVersion = ''v1'',
              Sort = Writer.Sort w\<rparr>"
  let ?anns = "(if \<not> Writer.KeepReaderAnnotations w then [IndexAnnotation] else [])
                 @ Writer.ClearAnnotations w"
  have sel: "selectWriter X w nodes = (Some (JSONWriter ?jw), nodes)"
    using assms(1) by (simp add: selectWriter_def Let_def)
  then have ww: "Writer_Write X w nodes s = JSONWriter_Write X ?jw nodes s"
    by (simp add: Writer_Write_def)
  have sort_err: "Writer_Write X w nodes s = (Some err, s)"
    if "Writer.Sort w \<and> SortNodes X nodes = Inl err" for err
    using that by (simp add: ww JSONWriter_Write_def)
  have srt_eq: "(if Writer.Sort w then SortNodes X nodes else Inr nodes) = Inr sorted"
    if "if Writer.Sort w then SortNodes X nodes = Inr sorted else sorted = nodes" for sorted
    using that by (simp split: if_splits)
  have clear_err: "Writer_Write X w nodes s = (Some err, s)"
    if srt: "if Writer.Sort w then SortNodes X nodes = Inr sorted else sorted = nodes"
      and i: "i < length sorted"
      and bad: "clearEach X ?anns (sorted ! i) = Inl err"
      and good: "\<forall>j<i. \<exists>d. clearEach X ?anns (sorted ! j) = Inr d"
    for sorted i err
  proof -
    have "clearNodes X ?jw sorted = Inl err"
      using clearNodes_Inl [of i sorted X ?jw err] i bad good by simp
    then show ?thesis
      using srt_eq [OF srt] by (simp add: ww JSONWriter_Write_def)
  qed
  have enc: "Writer_Write X w nodes s = Encode X (wrap ''v1'' ''List'' docs) s"
    if srt: "if Writer.Sort w then SortNodes X nodes = Inr sorted else sorted = nodes"
      and all2: "list_all2 (\<lambda>n d. clearEach X ?anns n = Inr d) sorted docs"
    for sorted docs
  proof -
    have "clearNodes X ?jw sorted = Inr docs"
      using clearNodes_Inr [of X ?jw sorted docs] all2 by simp
    then show ?thesis
      using srt_eq [OF srt] by (simp add: ww JSONWriter_Write_def)
  qed
  have len: "length docs = length nodes"
    if srt: "if Writer.Sort w then SortNodes X nodes = Inr sorted else sorted = nodes"
      and all2: "list_all2 (\<lambda>n d. clearEach X ?anns n = Inr d) sorted docs"
      and keep: "\<forall>ns ns'. SortNodes X ns = Inr ns' \<longrightarrow> length ns' = length ns"
    for sorted docs
  proof -
    have "length sorted = length nodes" using srt keep by (auto split: if_splits)
    with all2 show ?thesis by (simp add: list_all2_lengthD)
  qed
  show ?thesis
  proof (intro conjI allI impI)
    fix err assume "Writer.Sort w \<and> SortNodes X nodes = Inl err"
    then show "Writer_Write X w nodes s = (Some err, s)" by (rule sort_err)
  next
    fix sorted i err
    assume "if Writer.Sort w then SortNodes X nodes = Inr sorted else sorted = nodes"
      and "i < length sorted \<and> clearEach X ?anns (sorted ! i) = Inl err
           \<and> (\<forall>j<i. \<exists>d. clearEach X ?anns (sorted ! j) = Inr d)"
    then show "Writer_Write X w nodes s = (Some err, s)"
      using clear_err [of sorted i err] by blast
  next
    fix sorted docs
    assume "list_all2 (\<lambda>n d. clearEach X ?anns n = Inr d) sorted docs"
    then show "length docs = length sorted" by (simp add: list_all2_lengthD)
  next
    fix sorted docs
    assume "if Writer.Sort w then SortNodes X nodes = Inr sorted else sorted = nodes"
      and "list_all2 (\<lambda>n d. clearEach X ?anns n = Inr d) sorted docs"
      and "\<forall>ns ns'. SortNodes X ns = Inr ns' \<longrightarrow> length ns' = length ns"
    then show "length docs = length nodes" by (rule len)
  next
    fix docs :: "RNode list"
    show "field ''kind'' (YNode (wrap ''v1'' ''List'' docs)) = Some (scalar ''List'')"
      by (rule wrap_fields)
    show "field ''apiVersion'' (YNode (wrap ''v1'' ''List'' docs)) = Some (scalar ''v1'')"
      by (rule wrap_fields)
    show "field ''items'' (YNode (wrap ''v1'' ''List'' docs))
            = Some (Node SequenceNode [] [] [] 0 (map YNode docs))"
      by (rule wrap_fields)
  next
    fix sorted docs err
    assume "if Writer.Sort w then SortNodes X nodes = Inr sorted else sorted = nodes"
      and "list_all2 (\<lambda>n d. clearEach X ?anns n = Inr d) sorted docs"
      and "Marshal X (wrap ''v1'' ''List'' docs) = Inl err"
    then show "Writer_Write X w nodes s = (Some err, s)"
      using enc [of sorted docs] by (simp add: Encode_def)
  next
    fix sorted docs js
    assume "if Writer.Sort w then SortNodes X nodes = Inr sorted else sorted = nodes"
      and "list_all2 (\<lambda>n d. clearEach X ?anns n = Inr d) sorted docs"
      and "Marshal X (wrap ''v1'' ''List'' docs) = Inr js"
    then show "Writer_Write X w nodes s = Write X (js @ [CHR 0x0A]) s"
      using enc [of sorted docs] by (simp add: Encode_def)
  qed
qed

theorem Writer_Write_json_witness:
  "formatName (Format (writer ''json'')) = ''json''
   \<and> \<not> Writer.Sort (writer ''json'')
   \<and> map (clearEach plain
       ((if \<not> Writer.KeepReaderAnnotations (writer ''json'') then [IndexAnnotation] else [])
          @ Writer.ClearAnnotations (writer ''json''))) three_documents
       = map Inr three_documents
   \<and> SortNodes plain three_documents = Inr three_documents
   \<and> length three_documents = 3
   \<and> Marshal plain (wrap ''v1'' ''List'' three_documents)
       = Inr (''{apiVersion:v1,kind:List,items:[{kind:ConfigMap,data:{A:1}},''
              @ ''{kind:Secret,data:{B:Mg==}},{kind:ConfigMap,data:{}}]}'')
   \<and> Writer_Write plain (writer ''json'') three_documents []
       = (None, [(''{apiVersion:v1,kind:List,items:[{kind:ConfigMap,data:{A:1}},''
                 @ ''{kind:Secret,data:{B:Mg==}},{kind:ConfigMap,data:{}}]}'') @ [CHR 0x0A]])
   \<and> Writer_Write plain ((writer ''json'')\<lparr>Writer.Sort := True\<rparr>) three_documents []
       = (None, [(''{apiVersion:v1,kind:List,items:[{kind:ConfigMap,data:{A:1}},''
                 @ ''{kind:Secret,data:{B:Mg==}},{kind:ConfigMap,data:{}}]}'') @ [CHR 0x0A]])"
proof -
  define js where "js = ''{apiVersion:v1,kind:List,items:[{kind:ConfigMap,data:{A:1}},''
              @ ''{kind:Secret,data:{B:Mg==}},{kind:ConfigMap,data:{}}]}''"
  define w1 where "w1 = writer ''json''"
  define w2 where "w2 = (writer ''json'')\<lparr>Writer.Sort := True\<rparr>"
  have n: "formatName (Format w1) = ''json''" unfolding w1_def by code_simp
  have n': "formatName (Format w2) = ''json''" unfolding w2_def by code_simp
  have so: "\<not> Writer.Sort w1" by (simp add: writer_def w1_def)
  have so': "Writer.Sort w2" by (simp add: w2_def)
  have sn: "SortNodes plain three_documents = Inr three_documents" by (simp add: plain_def)
  have ce: "clearEach plain as n = Inr n" for as n
    by (induction as) (simp_all add: plain_def)
  have cl: "map (clearEach plain
       ((if \<not> Writer.KeepReaderAnnotations w1 then [IndexAnnotation] else [])
          @ Writer.ClearAnnotations w1)) three_documents = map Inr three_documents"
    by (simp add: ce)
  have all2: "list_all2 (\<lambda>n d. clearEach plain
       ((if \<not> Writer.KeepReaderAnnotations w1 then [IndexAnnotation] else [])
          @ Writer.ClearAnnotations w1) n = Inr d) three_documents three_documents"
    by (simp add: ce list_all2_same)
  have all2': "list_all2 (\<lambda>n d. clearEach plain
       ((if \<not> Writer.KeepReaderAnnotations w2 then [IndexAnnotation] else [])
          @ Writer.ClearAnnotations w2) n = Inr d) three_documents three_documents"
    by (simp add: ce list_all2_same)
  have len: "length three_documents = 3" by (simp add: three_documents_def)
  have m: "Marshal plain (wrap ''v1'' ''List'' three_documents) = Inr js"
    by (simp add: plain_def wrap_def NewRNode_def three_documents_def resource_def scalar_def
        Let_def js_def)
  have wr: "Write plain b [] = (None, [b])" for b by (simp add: plain_def)
  have c1: "if Writer.Sort w1 then SortNodes plain three_documents = Inr three_documents
            else three_documents = three_documents"
    using so by simp
  have c2: "if Writer.Sort w2 then SortNodes plain three_documents = Inr three_documents
            else three_documents = three_documents"
    using so' sn by simp
  note t1 = Writer_Write_json [OF n, of plain three_documents "[]", THEN conjunct2, rule_format,
      OF c1, THEN conjunct2, rule_format, OF all2]
  note t2 = Writer_Write_json [OF n', of plain three_documents "[]", THEN conjunct2, rule_format,
      OF c2, THEN conjunct2, rule_format, OF all2']
  have r: "Writer_Write plain w1 three_documents [] = (None, [js @ [CHR 0x0A]])"
    using t1 m by (simp only: wr)
  have r': "Writer_Write plain w2 three_documents [] = (None, [js @ [CHR 0x0A]])"
    using t2 m by (simp only: wr)
  show ?thesis
    using n so cl sn len m r r' unfolding js_def w1_def w2_def by (intro conjI)
qed

section \<open>Properties of the name/value writer\<close>

lemma Contains_single: "Contains s [c] \<longleftrightarrow> c \<in> set s"
  by (induction s) auto

lemma ContainsAny_iff: "ContainsAny s chars \<longleftrightarrow> (\<exists>c \<in> set s. c \<in> set chars)"
  by (simp add: ContainsAny_def list_ex_iff)

lemma printData_fold:
  assumes "\<forall>kv \<in> set kvs. \<exists>b. decode (snd kv) = Inr b"
  shows "printData X w sh decode kvs s =
           (None, foldl (\<lambda>s line. snd (Write X line s)) s
                    (map (\<lambda>(k, b). envLine (PrintTable X) w sh k b) (surviving decode kvs)))"
  using assms
proof (induction kvs arbitrary: s)
  case Nil
  then show ?case by (simp add: surviving_def)
next
  case (Cons kv kvs)
  obtain k v where kv: "kv = (k, v)" by (cases kv)
  from Cons.prems kv obtain b where b: "decode v = Inr b" by auto
  have IH: "\<And>s. printData X w sh decode kvs s =
           (None, foldl (\<lambda>s line. snd (Write X line s)) s
                    (map (\<lambda>(k, b). envLine (PrintTable X) w sh k b) (surviving decode kvs)))"
    using Cons.IH Cons.prems by simp
  show ?case
    using b
    by (auto simp: kv IH surviving_def printEnvVar_def Let_def Contains_single ContainsAny_iff)
qed

lemma printData_error:
  "fst (printData X w sh decode kvs s) = Some e \<Longrightarrow> \<exists>kv \<in> set kvs. decode (snd kv) = Inl e"
proof (induction kvs arbitrary: s)
  case Nil
  then show ?case by simp
next
  case (Cons kv kvs)
  obtain k v where kv: "kv = (k, v)" by (cases kv)
  show ?case
  proof (cases "decode v")
    case (Inl err)
    with Cons.prems kv show ?thesis by simp
  next
    case (Inr b)
    with Cons.prems kv obtain s' where "fst (printData X w sh decode kvs s') = Some e"
      by (auto simp: Let_def split: if_splits)
    from Cons.IH [OF this] show ?thesis by auto
  qed
qed

lemma printData_stream_free:
  "fst (printData X w sh decode kvs s) = fst (printData X' w' sh' decode kvs s')"
proof (induction kvs arbitrary: s s')
  case Nil
  then show ?case by simp
next
  case (Cons kv kvs)
  obtain k v where kv: "kv = (k, v)" by (cases kv)
  show ?case
  proof (cases "decode v")
    case (Inl err)
    then show ?thesis by (simp add: kv)
  next
    case (Inr b)
    then show ?thesis using Cons.IH by (simp add: kv Let_def)
  qed
qed

lemma decodeOf_cases:
  "decodeOf X n = (if \<exists>m. GetMeta X n = Inr m \<and> TypeKind m = ''Secret'' then DecodeString else Inr)"
  by (auto simp: decodeOf_def split: sum.splits)

lemma printNodes_error:
  "fst (printNodes X w sh nodes s) = Some e \<Longrightarrow>
   \<exists>n \<in> set nodes. \<exists>kv \<in> set (GetDataMap X n).
      (\<exists>m. GetMeta X n = Inr m \<and> TypeKind m = ''Secret'') \<and> DecodeString (snd kv) = Inl e"
proof (induction nodes arbitrary: s)
  case Nil
  then show ?case by simp
next
  case (Cons n ns)
  show ?case
  proof (cases "MatchesLabelSelector X n (Selector w) = Inr False")
    case True
    with Cons.prems have "fst (printNodes X w sh ns s) = Some e" by simp
    from Cons.IH [OF this] show ?thesis by auto
  next
    case False
    then have unf: "printNodes X w sh (n # ns) s =
        (case printData X w sh (decodeOf X n) (GetDataMap X n) s of
           (Some err, s') \<Rightarrow> (Some err, s')
         | (None, s') \<Rightarrow> printNodes X w sh ns s')"
      by (auto split: sum.splits bool.splits)
    obtain r s' where pd: "printData X w sh (decodeOf X n) (GetDataMap X n) s = (r, s')"
      by (cases "printData X w sh (decodeOf X n) (GetDataMap X n) s")
    show ?thesis
    proof (cases r)
      case None
      with Cons.prems unf pd have "fst (printNodes X w sh ns s') = Some e" by simp
      from Cons.IH [OF this] show ?thesis by auto
    next
      case (Some err)
      with Cons.prems unf pd have "err = e" by simp
      with Some pd have "fst (printData X w sh (decodeOf X n) (GetDataMap X n) s) = Some e"
        by simp
      from printData_error [OF this]
      obtain kv where kv: "kv \<in> set (GetDataMap X n)" "decodeOf X n (snd kv) = Inl e" by auto
      then have "(\<exists>m. GetMeta X n = Inr m \<and> TypeKind m = ''Secret'') \<and> DecodeString (snd kv) = Inl e"
        by (auto simp: decodeOf_cases split: if_splits)
      with kv show ?thesis by auto
    qed
  qed
qed

lemma printNodes_ok:
  assumes "\<forall>n \<in> set nodes. \<forall>kv \<in> set (GetDataMap X n).
      (\<exists>m. GetMeta X n = Inr m \<and> TypeKind m = ''Secret'') \<longrightarrow> (\<exists>b. DecodeString (snd kv) = Inr b)"
  shows "fst (printNodes X w sh nodes s) = None"
proof (rule ccontr)
  assume "fst (printNodes X w sh nodes s) \<noteq> None"
  then obtain e where "fst (printNodes X w sh nodes s) = Some e" by auto
  from printNodes_error [OF this] assms show False by force
qed

lemma printNodes_stream_free:
  "fst (printNodes (X\<lparr>Write := wr\<rparr>) w sh nodes s') = fst (printNodes X w sh nodes s)"
proof (induction nodes arbitrary: s s')
  case Nil
  then show ?case by simp
next
  case (Cons n ns)
  let ?X' = "X\<lparr>Write := wr\<rparr>"
  have d: "decodeOf ?X' n = decodeOf X n" by (simp add: decodeOf_def)
  show ?case
  proof (cases "MatchesLabelSelector X n (Selector w) = Inr False")
    case True
    then show ?thesis using Cons.IH by simp
  next
    case False
    have unf: "\<And>Y t. MatchesLabelSelector Y n (Selector w) = MatchesLabelSelector X n (Selector w)
        \<Longrightarrow> printNodes Y w sh (n # ns) t =
        (case printData Y w sh (decodeOf Y n) (GetDataMap Y n) t of
           (Some err, s') \<Rightarrow> (Some err, s')
         | (None, s') \<Rightarrow> printNodes Y w sh ns s')"
      using False by (auto split: sum.splits bool.splits)
    obtain r t where pd: "printData X w sh (decodeOf X n) (GetDataMap X n) s = (r, t)"
      by (cases "printData X w sh (decodeOf X n) (GetDataMap X n) s")
    obtain r' t' where pd': "printData ?X' w sh (decodeOf X n) (GetDataMap X n) s' = (r', t')"
      by (cases "printData ?X' w sh (decodeOf X n) (GetDataMap X n) s'")
    have "r' = r"
      using printData_stream_free [of ?X' w sh "decodeOf X n" "GetDataMap X n" s' X w sh s] pd pd'
      by simp
    then show ?thesis
      using unf [of X s] unf [of ?X' s'] pd pd' d Cons.IH [of t' t]
      by (cases r) simp_all
  qed
qed

lemma detectShell_Write [simp]: "detectShell (X\<lparr>Write := wr\<rparr>) w = detectShell X w"
  by (simp add: detectShell_def Let_def)

text \<open>
  Claim C10.  Whatever the output stream does with the writes (\<open>Write X\<close> is any function,
  also one that fails each time), \<open>Write\<close> of the name/value writer returns an error only
  when the base64 decoding of a data value of a \<open>Secret\<close> among the documents fails, and
  that error is the one returned; when every such value decodes, it returns \<open>nil\<close>.  The
  error returned is the same for every other output stream.
\<close>

theorem EnvWriter_Write_error:
  "(fst (EnvWriter_Write X w nodes s) = Some e \<longrightarrow>
      (\<exists>n \<in> set nodes. \<exists>kv \<in> set (GetDataMap X n).
         (\<exists>m. GetMeta X n = Inr m \<and> TypeKind m = ''Secret'') \<and> DecodeString (snd kv) = Inl e))
   \<and> ((\<forall>n \<in> set nodes. \<forall>kv \<in> set (GetDataMap X n).
         (\<exists>m. GetMeta X n = Inr m \<and> TypeKind m = ''Secret'')
           \<longrightarrow> (\<exists>b. DecodeString (snd kv) = Inr b))
       \<longrightarrow> fst (EnvWriter_Write X w nodes s) = None)
   \<and> fst (EnvWriter_Write (X\<lparr>Write := wr\<rparr>) w nodes s') = fst (EnvWriter_Write X w nodes s)"
  unfolding EnvWriter_Write_def
  using printNodes_error [of X w "detectShell X w" nodes s e]
    printNodes_ok [of nodes X w "detectShell X w" s]
    printNodes_stream_free [where X = X and wr = wr and w = w and sh = "detectShell X w"
        and nodes = nodes and s' = s' and s = s]
  by (simp del: printNodes.simps)

theorem EnvWriter_Write_error_witness:
  "GetMeta failing (resource ''ConfigMap'' [(''FOO'', ''bar'')])
     = Inr \<lparr>APIVersion = ''v1'', TypeKind = ''ConfigMap''\<rparr>
   \<and> Write failing ''FOO=bar'' [] = (Some (ErrorString ''write failed''), [])
   \<and> fst (EnvWriter_Write failing \<lparr>Unset = False, Shell = [], Selector = []\<rparr>
          [resource ''ConfigMap'' [(''FOO'', ''bar'')]] []) = None
   \<and> fst (EnvWriter_Write failing \<lparr>Unset = False, Shell = [], Selector = []\<rparr>
          [resource ''Secret'' [(''FOO'', ''b@r'')]] []) = Some CorruptInputError
   \<and> (\<exists>n \<in> set [resource ''Secret'' [(''FOO'', ''b@r'')]]. \<exists>kv \<in> set (GetDataMap failing n).
         (\<exists>m. GetMeta failing n = Inr m \<and> TypeKind m = ''Secret'')
          \<and> DecodeString (snd kv) = Inl CorruptInputError)"
proof -
  have m: "GetMeta failing (resource ''ConfigMap'' [(''FOO'', ''bar'')])
             = Inr \<lparr>APIVersion = ''v1'', TypeKind = ''ConfigMap''\<rparr>"
    by code_simp
  have h: "\<forall>n \<in> set [resource ''ConfigMap'' [(''FOO'', ''bar'')]]. \<forall>kv \<in> set (GetDataMap failing n).
        (\<exists>m. GetMeta failing n = Inr m \<and> TypeKind m = ''Secret'')
          \<longrightarrow> (\<exists>b. DecodeString (snd kv) = Inr b)"
    by (simp add: m)
  have w: "Write failing ''FOO=bar'' [] = (Some (ErrorString ''write failed''), [])"
    by (simp add: failing_def)
  have e: "fst (EnvWriter_Write failing \<lparr>Unset = False, Shell = [], Selector = []\<rparr>
          [resource ''Secret'' [(''FOO'', ''b@r'')]] []) = Some CorruptInputError"
    by code_simp
  note t1 = EnvWriter_Write_error [of failing "\<lparr>Unset = False, Shell = [], Selector = []\<rparr>"
      "[resource ''ConfigMap'' [(''FOO'', ''bar'')]]" "[]"]
  note t2 = EnvWriter_Write_error [of failing "\<lparr>Unset = False, Shell = [], Selector = []\<rparr>"
      "[resource ''Secret'' [(''FOO'', ''b@r'')]]" "[]" CorruptInputError]
  from t1 h have r1: "fst (EnvWriter_Write failing \<lparr>Unset = False, Shell = [], Selector = []\<rparr>
          [resource ''ConfigMap'' [(''FOO'', ''bar'')]] []) = None"
    by blast
  from t2 e have r2: "\<exists>n \<in> set [resource ''Secret'' [(''FOO'', ''b@r'')]].
      \<exists>kv \<in> set (GetDataMap failing n).
         (\<exists>m. GetMeta failing n = Inr m \<and> TypeKind m = ''Secret'')
          \<and> DecodeString (snd kv) = Inl CorruptInputError"
    by blast
  from m w r1 e r2 show ?thesis by blast
qed

lemma printNodes_filter:
  "printNodes X w sh nodes s =
     printNodes X w sh (filter (\<lambda>n. MatchesLabelSelector X n (Selector w) \<noteq> Inr False) nodes) s"
proof (induction nodes arbitrary: s)
  case Nil
  then show ?case by simp
next
  case (Cons n ns)
  show ?case
  proof (cases "MatchesLabelSelector X n (Selector w) = Inr False")
    case True
    then show ?thesis using Cons.IH by simp
  next
    case False
    then show ?thesis using Cons.IH
      by (cases "printData X w sh (decodeOf X n) (GetDataMap X n) s")
         (auto split: sum.splits bool.splits option.splits)
  qed
qed

lemma printData_Write_cong:
  "Write X' = Write X \<Longrightarrow> PrintTable X' = PrintTable X \<Longrightarrow>
   printData X' w sh decode kvs s = printData X w sh decode kvs s"
proof (induction kvs arbitrary: s)
  case Nil
  then show ?case by simp
next
  case (Cons kv kvs)
  then show ?case
    by (cases kv) (auto simp: Let_def printEnvVar_def split: sum.splits)
qed

lemma printNodes_error_as_match:
  "printNodes
     (X\<lparr>MatchesLabelSelector :=
          (\<lambda>n sel. case MatchesLabelSelector X n sel of Inl err \<Rightarrow> Inr True | Inr ok \<Rightarrow> Inr ok)\<rparr>)
     w sh nodes s
   = printNodes X w sh nodes s"
proof (induction nodes arbitrary: s)
  case Nil
  then show ?case by simp
next
  case (Cons n ns)
  let ?X' = "X\<lparr>MatchesLabelSelector :=
          (\<lambda>n sel. case MatchesLabelSelector X n sel of Inl err \<Rightarrow> Inr True | Inr ok \<Rightarrow> Inr ok)\<rparr>"
  have d: "decodeOf ?X' n = decodeOf X n" by (simp add: decodeOf_def)
  have pd: "\<And>t. printData ?X' w sh (decodeOf X n) (GetDataMap X n) t
              = printData X w sh (decodeOf X n) (GetDataMap X n) t"
    by (rule printData_Write_cong) simp_all
  show ?case
    using Cons.IH
    by (cases "MatchesLabelSelector X n (Selector w)";
        cases "printData X w sh (decodeOf X n) (GetDataMap X n) s")
       (auto simp: d pd split: bool.splits option.splits)
qed

text \<open>
  Claim C3, as the code has it.  Writing a sequence of documents is writing those of
  them whose labels are not found to fail the selector: a document whose labels fail to
  match is skipped entirely.  A document for which the evaluation of the selector
  returns an error is not skipped: the result is the one for a selector that matches
  wherever its evaluation fails, so the pairs of that document are emitted, and the error
  of the selector is not returned.
\<close>

theorem EnvWriter_Write_selector:
  "EnvWriter_Write X w nodes s =
     EnvWriter_Write X w
       (filter (\<lambda>n. MatchesLabelSelector X n (Selector w) \<noteq> Inr False) nodes) s
   \<and> EnvWriter_Write X w nodes s =
     EnvWriter_Write
       (X\<lparr>MatchesLabelSelector :=
            (\<lambda>n sel. case MatchesLabelSelector X n sel of Inl err \<Rightarrow> Inr True | Inr ok \<Rightarrow> Inr ok)\<rparr>)
       w nodes s"
proof -
  have "detectShell
       (X\<lparr>MatchesLabelSelector :=
            (\<lambda>n sel. case MatchesLabelSelector X n sel of Inl err \<Rightarrow> Inr True | Inr ok \<Rightarrow> Inr ok)\<rparr>) w
        = detectShell X w"
    by (simp add: detectShell_def Let_def)
  then show ?thesis
    unfolding EnvWriter_Write_def
    using printNodes_filter [of X w "detectShell X w" nodes s]
      printNodes_error_as_match [of X w "detectShell X w" nodes s]
    by (simp del: printNodes.simps)
qed

theorem EnvWriter_Write_selector_witness:
  "MatchesLabelSelector no_match (resource ''ConfigMap'' [(''FOO'', ''bar'')]) ''app=web''
     = Inr False
   \<and> EnvWriter_Write no_match \<lparr>Unset = False, Shell = ''none'', Selector = ''app=web''\<rparr>
       [resource ''ConfigMap'' [(''FOO'', ''bar'')]] []
     = EnvWriter_Write no_match \<lparr>Unset = False, Shell = ''none'', Selector = ''app=web''\<rparr> [] []
   \<and> EnvWriter_Write no_match \<lparr>Unset = False, Shell = ''none'', Selector = ''app=web''\<rparr>
       [resource ''ConfigMap'' [(''FOO'', ''bar'')]] [] = (None, [])"
proof -
  have m: "MatchesLabelSelector no_match (resource ''ConfigMap'' [(''FOO'', ''bar'')]) ''app=web''
     = Inr False"
    by (simp add: no_match_def)
  have e: "EnvWriter_Write no_match \<lparr>Unset = False, Shell = ''none'', Selector = ''app=web''\<rparr> [] []
            = (None, [])"
    by (simp add: EnvWriter_Write_def)
  show ?thesis
    using EnvWriter_Write_selector [of no_match
        "\<lparr>Unset = False, Shell = ''none'', Selector = ''app=web''\<rparr>"
        "[resource ''ConfigMap'' [(''FOO'', ''bar'')]]" "[]"]
    by (simp add: m e)
qed

text \<open>
  Claim C3 as stated fails: the evaluation of the selector returns an error, and the
  document is not skipped; its pair is written.
\<close>

theorem EnvWriter_Write_selector_error_counterexample:
  "MatchesLabelSelector bad_selector (resource ''ConfigMap'' [(''FOO'', ''bar'')]) ''app in (''
     = Inl (ErrorString ''invalid selector'')
   \<and> EnvWriter_Write bad_selector \<lparr>Unset = False, Shell = ''none'', Selector = ''app in (''\<rparr>
       [resource ''ConfigMap'' [(''FOO'', ''bar'')]] []
     = (None, [''FOO=bar'' @ [CHR 0x0A]])"
proof
  show "MatchesLabelSelector bad_selector (resource ''ConfigMap'' [(''FOO'', ''bar'')]) ''app in (''
     = Inl (ErrorString ''invalid selector'')"
    by (simp add: bad_selector_def)
next
  show "EnvWriter_Write bad_selector \<lparr>Unset = False, Shell = ''none'', Selector = ''app in (''\<rparr>
       [resource ''ConfigMap'' [(''FOO'', ''bar'')]] []
     = (None, [''FOO=bar'' @ [CHR 0x0A]])"
    by code_simp
qed

lemma Count_append: "Count (xs @ ys) c = Count xs c + Count ys c"
  by (simp add: Count_def)

lemma Count_0: "c \<notin> set xs \<Longrightarrow> Count xs c = 0"
  by (induction xs) (auto simp: Count_def)

lemma Count_Cons: "Count (x # xs) c = (if x = c then 1 else 0) + Count xs c"
  by (simp add: Count_def)

lemma hexDigit_not_newline: "hexDigit n \<noteq> CHR 0x0A" "CHR 0x0A \<noteq> hexDigit n"
proof -
  have "n mod 16 < length ''0123456789abcdef''" by simp
  then have "hexDigit n \<in> set ''0123456789abcdef''"
    unfolding hexDigit_def by (rule nth_mem)
  then show "hexDigit n \<noteq> CHR 0x0A" by auto
  then show "CHR 0x0A \<noteq> hexDigit n" by simp
qed

lemma char_of_not_newline:
  assumes "n < 256" and "n \<noteq> 10"
  shows "char_of (n :: nat) \<noteq> CHR 0x0A" and "CHR 0x0A \<noteq> char_of n"
proof -
  show "char_of n \<noteq> CHR 0x0A"
  proof
    assume "char_of n = CHR 0x0A"
    then have "(of_char (char_of n :: char) :: nat) = of_char (CHR 0x0A)" by simp
    then have "n mod 256 = 10" by (simp add: of_char_of)
    with assms show False by simp
  qed
  then show "CHR 0x0A \<noteq> char_of n" by simp
qed

lemma of_char_eq_numeral:
  "(of_char c :: nat) = 0x22 \<Longrightarrow> c = CHR 0x22" "(of_char c :: nat) = 0x5C \<Longrightarrow> c = CHR 0x5C"
proof -
  assume "(of_char c :: nat) = 0x22"
  then have "(of_char c :: nat) = of_char (CHR 0x22)" by simp
  then show "c = CHR 0x22" by (simp only: of_char_eq_iff)
next
  assume "(of_char c :: nat) = 0x5C"
  then have "(of_char c :: nat) = of_char (CHR 0x5C)" by simp
  then show "c = CHR 0x5C" by (simp only: of_char_eq_iff)
qed

lemma AppendRune_no_newline: "r \<noteq> 10 \<Longrightarrow> CHR 0x0A \<notin> set (AppendRune r)"
proof -
  assume r: "r \<noteq> 10"
  have m: "128 \<le> 0x80 + k mod 64" "0x80 + k mod 64 < 256" for k :: nat
  proof -
    have "k mod 64 < 64" by simp
    then show "128 \<le> 0x80 + k mod 64" "0x80 + k mod 64 < 256" by linarith+
  qed
  have t: "char_of (0x80 + k mod 64) \<noteq> CHR 0x0A" "CHR 0x0A \<noteq> char_of (0x80 + k mod 64)"
    for k :: nat
  proof -
    have "0x80 + k mod 64 \<noteq> 10" using m(1) [of k] by linarith
    from char_of_not_newline [OF m(2) this]
    show "char_of (0x80 + k mod 64) \<noteq> CHR 0x0A" "CHR 0x0A \<noteq> char_of (0x80 + k mod 64)"
      by blast+
  qed
  show ?thesis
  proof (cases "r < 0x80")
    case True
    then show ?thesis using r by (simp add: AppendRune_def char_of_not_newline)
  next
    case F1: False
    show ?thesis
    proof (cases "r < 0x800")
      case True
      then have "r div 64 < 32" by simp
      then have "CHR 0x0A \<noteq> char_of (0xC0 + r div 64)"
        by (intro char_of_not_newline) simp_all
      then show ?thesis using F1 True t [of r] by (simp add: AppendRune_def)
    next
      case F2: False
      show ?thesis
      proof (cases "0x10FFFF < r \<or> (0xD800 \<le> r \<and> r \<le> 0xDFFF)")
        case True
        then show ?thesis using F1 F2 by (simp add: AppendRune_def)
      next
        case F3: False
        show ?thesis
        proof (cases "r < 0x10000")
          case True
          then have "r div 4096 < 16" by simp
          then have "CHR 0x0A \<noteq> char_of (0xE0 + r div 4096)"
            by (intro char_of_not_newline) simp_all
          then show ?thesis using F1 F2 F3 True t [of r] t [of "r div 64"]
            by (simp add: AppendRune_def)
        next
          case F4: False
          from F3 have "r < 1114112" by simp
          then have "r div 262144 < 5" by simp
          then have "CHR 0x0A \<noteq> char_of (0xF0 + r div 262144)"
            by (intro char_of_not_newline) simp_all
          then show ?thesis using F1 F2 F3 F4 t [of r] t [of "r div 64"] t [of "r div 4096"]
            by (simp add: AppendRune_def)
        qed
      qed
    qed
  qed
qed

lemma appendEscapedRune_no_newline: "CHR 0x0A \<notin> set (appendEscapedRune tbl r)"
proof (cases "r = 0x22 \<or> r = 0x5C")
  case True
  then show ?thesis by (auto simp: appendEscapedRune_def char_of_not_newline)
next
  case F: False
  show ?thesis
  proof (cases "IsPrint tbl r")
    case True
    then have "r \<noteq> 10" by (auto simp: IsPrint_def)
    then show ?thesis using F True by (simp add: appendEscapedRune_def AppendRune_no_newline)
  next
    case False
    then show ?thesis using F
      by (simp add: appendEscapedRune_def hexDigit_not_newline)
  qed
qed

lemma quoteFrom_no_newline: "CHR 0x0A \<notin> set (quoteFrom tbl s)"
proof (induction tbl s rule: quoteFrom.induct)
  case (1 tbl)
  then show ?case by simp
next
  case (2 tbl c s)
  obtain r width where d: "DecodeRuneInString (c # s) = (r, width)"
    by (cases "DecodeRuneInString (c # s)")
  have "CHR 0x0A \<notin> set (quoteFrom tbl (drop (width - 1) s))"
    using "2.IH" [OF d [symmetric] refl] .
  then show ?case
    by (simp add: d appendEscapedRune_no_newline hexDigit_not_newline)
qed

lemma Quote_no_newline: "CHR 0x0A \<notin> set (Quote tbl b)"
  by (simp add: Quote_def quoteFrom_no_newline)

lemma quoteFrom_printable:
  "\<forall>c \<in> set b. 0x20 \<le> (of_char c :: nat) \<and> (of_char c :: nat) \<le> 0x7E
       \<and> c \<noteq> CHR 0x22 \<and> c \<noteq> CHR 0x5C
   \<Longrightarrow> quoteFrom tbl b = b"
proof (induction b)
  case Nil
  then show ?case by simp
next
  case (Cons c b)
  then have c: "0x20 \<le> (of_char c :: nat)" "(of_char c :: nat) \<le> 0x7E"
    "c \<noteq> CHR 0x22" "c \<noteq> CHR 0x5C"
    by simp_all
  have d: "DecodeRuneInString (c # b) = (of_char c, 1)"
    using c by (simp add: DecodeRuneInString_def)
  have ne: "(of_char c :: nat) \<noteq> RuneError" using c by (simp add: RuneError_def)
  have q: "(of_char c :: nat) \<noteq> 0x22" "(of_char c :: nat) \<noteq> 0x5C"
    using c of_char_eq_numeral [of c] by blast+
  have p: "IsPrint tbl (of_char c)" using c by (simp add: IsPrint_def)
  have a: "appendEscapedRune tbl (of_char c) = [c]"
    using c q p by (simp add: appendEscapedRune_def AppendRune_def)
  show ?case using Cons d ne a by simp
qed
lemma envLine_one_newline:
  assumes "CHR 0x0A \<notin> set k" and "CHR 0x0A \<notin> set b"
  shows "Count (envLine tbl w sh k b) (CHR 0x0A) = 1"
proof -
  have q: "Count (Quote tbl b) (CHR 0x0A) = 0"
    by (simp add: Count_0 Quote_no_newline)
  have k: "Count k (CHR 0x0A) = 0" and b: "Count b (CHR 0x0A) = 0"
    using assms by (simp_all add: Count_0)
  show ?thesis
    by (simp add: envLine_def Count_append Count_Cons q k b Count_0)
qed

lemma envLine_last: "last (envLine tbl w sh k b) = CHR 0x0A"
  by (simp add: envLine_def)

lemma printNodes_pairs:
  assumes "MatchesLabelSelector X n (Selector w) \<noteq> Inr False"
    and "\<forall>kv \<in> set (GetDataMap X n). \<exists>b. decodeOf X n (snd kv) = Inr b"
  shows "printNodes X w sh (n # ns) s =
           printNodes X w sh ns
             (foldl (\<lambda>s line. snd (Write X line s)) s
                (map (\<lambda>(k, b). envLine (PrintTable X) w sh k b)
                   (surviving (decodeOf X n) (GetDataMap X n))))"
proof -
  have "printNodes X w sh (n # ns) s =
        (case printData X w sh (decodeOf X n) (GetDataMap X n) s of
           (Some err, s') \<Rightarrow> (Some err, s')
         | (None, s') \<Rightarrow> printNodes X w sh ns s')"
    using assms(1) by (auto split: sum.splits bool.splits)
  then show ?thesis
    by (simp add: printData_fold [OF assms(2)])
qed

lemma ToLower_Nil_iff: "ToLower s = [] \<longleftrightarrow> s = []"
  by (simp add: ToLower_def)

lemma detectShell_ascii:
  assumes "list_all (\<lambda>c. (of_char c :: nat) < 0x80) (Shell w)" and "Shell w \<noteq> []"
  shows "detectShell X w = ToLower (Shell w)"
  using assms by (simp add: detectShell_def strings_ToLower_def Let_def ToLower_Nil_iff)

text \<open>
  Claim C4, as the code has it.  The decode function of a document is base64 decoding
  when its kind is \<open>Secret\<close> and the identity otherwise.  For a document that is not
  skipped and whose values all decode, the writer makes one write for each surviving pair
  of the data map, in the order of the map, and none for a pair whose key has a dot or
  whose decoded value has a newline or a carriage return.  The shell in effect is the
  configured one in lower case (for a name of ASCII bytes, its ASCII letters lowered).
  With unset mode off, a pair is written as key, \<open>=\<close>, value and a newline when no shell or
  the shell \<open>none\<close> is in effect, as \<open>set -gx\<close>, key, quoted value, \<open>;\<close> and a newline for
  \<open>fish\<close>, and as \<open>export\<close>, key, \<open>=\<close>, quoted value and a newline for any other shell; so
  the pair of key \<open>FOO\<close> and decoded value \<open>test\<close> is written as \<open>FOO=test\<close>, and as
  \<open>export FOO="test"\<close> for \<open>bash\<close>.  The quoted value is the value between double quotes
  when it consists of printable ASCII characters other than \<open>"\<close> and \<open>\\<close> (other bytes are
  escaped), and it never holds a newline.  Every text written ends with a newline, and it
  holds no other newline when neither the key nor the decoded value holds one.
\<close>

theorem EnvWriter_Write_pairs:
  "decodeOf X n =
     (if \<exists>m. GetMeta X n = Inr m \<and> TypeKind m = ''Secret'' then DecodeString else Inr)
   \<and> (MatchesLabelSelector X n (Selector w) \<noteq> Inr False \<longrightarrow>
      (\<forall>kv \<in> set (GetDataMap X n). \<exists>b. decodeOf X n (snd kv) = Inr b) \<longrightarrow>
      EnvWriter_Write X w (n # ns) s =
        EnvWriter_Write X w ns
          (foldl (\<lambda>s line. snd (Write X line s)) s
             (map (\<lambda>(k, b). envLine (PrintTable X) w (detectShell X w) k b)
                (surviving (decodeOf X n) (GetDataMap X n)))))
   \<and> (\<forall>kb \<in> set (surviving (decodeOf X n) (GetDataMap X n)).
        CHR ''.'' \<notin> set (fst kb) \<and> CHR 0x0A \<notin> set (snd kb) \<and> CHR 0x0D \<notin> set (snd kb))
   \<and> (list_all (\<lambda>c. (of_char c :: nat) < 0x80) (Shell w) \<longrightarrow> Shell w \<noteq> [] \<longrightarrow>
        detectShell X w = ToLower (Shell w))
   \<and> (\<not> Unset w \<longrightarrow>
        envLine tbl w sh k b =
          (if sh = ''none'' \<or> sh = [] then k @ ''='' @ b @ [CHR 0x0A]
           else if sh = ''fish'' then ''set -gx '' @ k @ '' '' @ Quote tbl b @ '';'' @ [CHR 0x0A]
           else ''export '' @ k @ ''='' @ Quote tbl b @ [CHR 0x0A])
      \<and> envLine tbl w [] ''FOO'' ''test'' = ''FOO=test'' @ [CHR 0x0A]
      \<and> envLine tbl w ''none'' ''FOO'' ''test'' = ''FOO=test'' @ [CHR 0x0A]
      \<and> envLine tbl w ''bash'' ''FOO'' ''test''
          = ''export FOO='' @ [CHR 0x22] @ ''test'' @ [CHR 0x22] @ [CHR 0x0A])
   \<and> ((\<forall>c \<in> set b. 0x20 \<le> (of_char c :: nat) \<and> (of_char c :: nat) \<le> 0x7E
          \<and> c \<noteq> CHR 0x22 \<and> c \<noteq> CHR 0x5C)
        \<longrightarrow> Quote tbl b = [CHR 0x22] @ b @ [CHR 0x22])
   \<and> CHR 0x0A \<notin> set (Quote tbl b)
   \<and> last (envLine tbl w sh k b) = CHR 0x0A
   \<and> (CHR 0x0A \<notin> set k \<longrightarrow> CHR 0x0A \<notin> set b \<longrightarrow> Count (envLine tbl w sh k b) (CHR 0x0A) = 1)"
proof (intro conjI impI)
  show "decodeOf X n =
     (if \<exists>m. GetMeta X n = Inr m \<and> TypeKind m = ''Secret'' then DecodeString else Inr)"
    by (rule decodeOf_cases)
next
  assume "MatchesLabelSelector X n (Selector w) \<noteq> Inr False"
    and "\<forall>kv \<in> set (GetDataMap X n). \<exists>b. decodeOf X n (snd kv) = Inr b"
  then show "EnvWriter_Write X w (n # ns) s =
        EnvWriter_Write X w ns
          (foldl (\<lambda>s line. snd (Write X line s)) s
             (map (\<lambda>(k, b). envLine (PrintTable X) w (detectShell X w) k b)
                (surviving (decodeOf X n) (GetDataMap X n))))"
    unfolding EnvWriter_Write_def by (rule printNodes_pairs)
next
  show "\<forall>kb \<in> set (surviving (decodeOf X n) (GetDataMap X n)).
        CHR ''.'' \<notin> set (fst kb) \<and> CHR 0x0A \<notin> set (snd kb) \<and> CHR 0x0D \<notin> set (snd kb)"
    by (auto simp: surviving_def)
next
  assume "list_all (\<lambda>c. (of_char c :: nat) < 0x80) (Shell w)" and "Shell w \<noteq> []"
  then show "detectShell X w = ToLower (Shell w)" by (rule detectShell_ascii)
next
  assume "\<not> Unset w"
  then show "envLine tbl w sh k b =
          (if sh = ''none'' \<or> sh = [] then k @ ''='' @ b @ [CHR 0x0A]
           else if sh = ''fish'' then ''set -gx '' @ k @ '' '' @ Quote tbl b @ '';'' @ [CHR 0x0A]
           else ''export '' @ k @ ''='' @ Quote tbl b @ [CHR 0x0A])"
    by (simp add: envLine_def)
next
  assume "\<not> Unset w"
  then show "envLine tbl w [] ''FOO'' ''test'' = ''FOO=test'' @ [CHR 0x0A]"
    by (simp add: envLine_def)
next
  assume "\<not> Unset w"
  then show "envLine tbl w ''none'' ''FOO'' ''test'' = ''FOO=test'' @ [CHR 0x0A]"
    by (simp add: envLine_def)
next
  have "quoteFrom tbl ''test'' = ''test''" by (rule quoteFrom_printable) simp
  then have q: "Quote tbl ''test'' = [CHR 0x22] @ ''test'' @ [CHR 0x22]"
    by (simp only: Quote_def)
  assume "\<not> Unset w"
  then show "envLine tbl w ''bash'' ''FOO'' ''test''
          = ''export FOO='' @ [CHR 0x22] @ ''test'' @ [CHR 0x22] @ [CHR 0x0A]"
    by (simp add: envLine_def q)
next
  assume "\<forall>c \<in> set b. 0x20 \<le> (of_char c :: nat) \<and> (of_char c :: nat) \<le> 0x7E
          \<and> c \<noteq> CHR 0x22 \<and> c \<noteq> CHR 0x5C"
  then have "quoteFrom tbl b = b" by (rule quoteFrom_printable)
  then show "Quote tbl b = [CHR 0x22] @ b @ [CHR 0x22]"
    by (simp only: Quote_def)
next
  show "CHR 0x0A \<notin> set (Quote tbl b)" by (rule Quote_no_newline)
next
  show "last (envLine tbl w sh k b) = CHR 0x0A" by (rule envLine_last)
next
  assume "CHR 0x0A \<notin> set k" and "CHR 0x0A \<notin> set b"
  then show "Count (envLine tbl w sh k b) (CHR 0x0A) = 1" by (rule envLine_one_newline)
qed
theorem EnvWriter_Write_pairs_witness:
  "MatchesLabelSelector plain secret_doc [] \<noteq> Inr False
   \<and> map (\<lambda>kv. decodeOf plain secret_doc (snd kv)) (GetDataMap plain secret_doc)
       = [Inr ''test'', Inr ''x'', Inr (''a'' @ [CHR 0x0A] @ ''b'')]
   \<and> \<not> Unset \<lparr>Unset = False, Shell = ''none'', Selector = []\<rparr>
   \<and> CHR 0x0A \<notin> set ''FOO'' \<and> CHR 0x0A \<notin> set ''test''
   \<and> surviving (decodeOf plain secret_doc) (GetDataMap plain secret_doc) = [(''FOO'', ''test'')]
   \<and> EnvWriter_Write plain \<lparr>Unset = False, Shell = ''none'', Selector = []\<rparr> [secret_doc] []
       = (None, [''FOO=test'' @ [CHR 0x0A]])
   \<and> EnvWriter_Write plain \<lparr>Unset = False, Shell = ''bash'', Selector = []\<rparr> [secret_doc] []
       = (None, [''export FOO='' @ [CHR 0x22] @ ''test'' @ [CHR 0x22] @ [CHR 0x0A]])
   \<and> Count (envLine (PrintTable plain) \<lparr>Unset = False, Shell = ''none'', Selector = []\<rparr>
               ''none'' ''FOO'' ''test'') (CHR 0x0A) = 1
   \<and> MatchesLabelSelector plain raw_secret [] \<noteq> Inr False
   \<and> map (\<lambda>kv. decodeOf plain raw_secret (snd kv)) (GetDataMap plain raw_secret)
       = [Inr [CHR 0xFF, CHR 0xC2, CHR 0xA0]]
   \<and> EnvWriter_Write plain \<lparr>Unset = False, Shell = ''bash'', Selector = []\<rparr> [raw_secret] []
       = (None, [''export FOO='' @ [CHR 0x22, CHR 0x5C] @ ''xff'' @ [CHR 0x5C] @ ''u00a0''
                   @ [CHR 0x22] @ [CHR 0x0A]])
   \<and> detectShell plain \<lparr>Unset = False, Shell = dotted_fish, Selector = []\<rparr> = ''fish''
   \<and> EnvWriter_Write plain \<lparr>Unset = False, Shell = dotted_fish, Selector = []\<rparr> [secret_doc] []
       = (None, [''set -gx FOO '' @ [CHR 0x22] @ ''test'' @ [CHR 0x22] @ '';'' @ [CHR 0x0A]])"
proof -
  let ?w = "\<lparr>Unset = False, Shell = ''none'', Selector = []\<rparr>"
  let ?b = "\<lparr>Unset = False, Shell = ''bash'', Selector = []\<rparr>"
  let ?f = "\<lparr>Unset = False, Shell = dotted_fish, Selector = []\<rparr>"
  let ?raw = "[CHR 0xFF, CHR 0xC2, CHR 0xA0]"
  have sel: "MatchesLabelSelector plain secret_doc [] \<noteq> Inr False"
    by (simp add: plain_def)
  have sel3: "MatchesLabelSelector plain raw_secret [] \<noteq> Inr False"
    by (simp add: plain_def)
  have dm: "GetDataMap plain secret_doc
              = [(''FOO'', ''dGVzdA==''), (''app.config'', ''eA==''), (''MULTI'', ''YQpi'')]"
    by code_simp
  have dm3: "GetDataMap plain raw_secret = [(''FOO'', ''/8Kg'')]"
    by code_simp
  have meta: "GetMeta plain secret_doc = Inr \<lparr>APIVersion = ''v1'', TypeKind = ''Secret''\<rparr>"
    by code_simp
  have meta3: "GetMeta plain raw_secret = Inr \<lparr>APIVersion = ''v1'', TypeKind = ''Secret''\<rparr>"
    by code_simp
  have dec: "decodeOf plain secret_doc = DecodeString"
    by (simp add: decodeOf_def meta)
  have dec3: "decodeOf plain raw_secret = DecodeString"
    by (simp add: decodeOf_def meta3)
  have d1: "DecodeString ''dGVzdA=='' = Inr ''test''"
    by (simp add: DecodeString_def decodeMap_def quantumBytes_def isNewline_def Let_def
        char_of_def bit_Suc_0_iff)
  have d2: "DecodeString ''eA=='' = Inr ''x''"
    by (simp add: DecodeString_def decodeMap_def quantumBytes_def isNewline_def Let_def
        char_of_def bit_Suc_0_iff)
  have d3: "DecodeString ''YQpi'' = Inr (''a'' @ [CHR 0x0A] @ ''b'')"
    by (simp add: DecodeString_def decodeMap_def quantumBytes_def isNewline_def Let_def
        char_of_def bit_Suc_0_iff)
  have d4: "DecodeString ''/8Kg'' = Inr ?raw"
    by (simp add: DecodeString_def decodeMap_def quantumBytes_def isNewline_def Let_def
        char_of_def bit_Suc_0_iff)
  have all: "\<forall>kv \<in> set (GetDataMap plain secret_doc). \<exists>b. decodeOf plain secret_doc (snd kv) = Inr b"
    by (simp add: dm dec d1 d2 d3)
  have all3: "\<forall>kv \<in> set (GetDataMap plain raw_secret). \<exists>b. decodeOf plain raw_secret (snd kv) = Inr b"
    by (simp add: dm3 dec3 d4)
  have sv: "surviving (decodeOf plain secret_doc) (GetDataMap plain secret_doc) = [(''FOO'', ''test'')]"
    by (simp add: dm dec surviving_def d1 d2 d3)
  have sv3: "surviving (decodeOf plain raw_secret) (GetDataMap plain raw_secret) = [(''FOO'', ?raw)]"
    by (simp add: dm3 dec3 surviving_def d4)
  have sh: "detectShell plain ?w = ''none''" "detectShell plain ?b = ''bash''"
    by code_simp+
  have sh3: "detectShell plain ?f = ''fish''"
    by (simp add: detectShell_def strings_ToLower_def Map_func_def DecodeRuneInString_def
        unicode_ToLower_def AppendRune_def plain_def Let_def dotted_fish_def RuneError_def
        char_of_def bit_Suc_0_iff)
  have q3: "Quote (PrintTable plain) ?raw
        = [CHR 0x22, CHR 0x5C] @ ''xff'' @ [CHR 0x5C] @ ''u00a0'' @ [CHR 0x22]"
    by (simp add: Quote_def DecodeRuneInString_def RuneError_def appendEscapedRune_def
        IsPrint_def hexDigit_def ValidRune_def Let_def)
  have nil: "\<And>w s. EnvWriter_Write plain w [] s = (None, s)"
    by (simp add: EnvWriter_Write_def)
  have wr: "\<And>b s. snd (Write plain b s) = s @ [b]" by (simp add: plain_def)
  note t1 = EnvWriter_Write_pairs [of plain secret_doc ?w "[]" "[]" "PrintTable plain"
      "''none''" "''FOO''" "''test''"]
  note t2 = EnvWriter_Write_pairs [of plain secret_doc ?b "[]" "[]" "PrintTable plain"
      "''bash''" "''FOO''" "''test''"]
  note t3 = EnvWriter_Write_pairs [of plain raw_secret ?b "[]" "[]" "PrintTable plain"
      "''bash''" "''FOO''" ?raw]
  note t4 = EnvWriter_Write_pairs [of plain secret_doc ?f "[]" "[]" "PrintTable plain"
      "''fish''" "''FOO''" "''test''"]
  have e1: "envLine (PrintTable plain) ?w ''none'' ''FOO'' ''test'' = ''FOO=test'' @ [CHR 0x0A]"
    using t1 by simp
  have e2: "envLine (PrintTable plain) ?b ''bash'' ''FOO'' ''test''
              = ''export FOO='' @ [CHR 0x22] @ ''test'' @ [CHR 0x22] @ [CHR 0x0A]"
    using t2 by simp
  have e3: "envLine (PrintTable plain) ?b ''bash'' ''FOO'' ?raw
              = ''export FOO='' @ [CHR 0x22, CHR 0x5C] @ ''xff'' @ [CHR 0x5C] @ ''u00a0''
                   @ [CHR 0x22] @ [CHR 0x0A]"
    by (simp add: envLine_def q3)
  have qt: "Quote (PrintTable plain) ''test'' = [CHR 0x22] @ ''test'' @ [CHR 0x22]"
    using t4 by simp
  have e4: "envLine (PrintTable plain) ?f ''fish'' ''FOO'' ''test''
              = ''set -gx FOO '' @ [CHR 0x22] @ ''test'' @ [CHR 0x22] @ '';'' @ [CHR 0x0A]"
    by (simp add: envLine_def qt)
  have r1: "EnvWriter_Write plain ?w [secret_doc] [] = (None, [''FOO=test'' @ [CHR 0x0A]])"
    using t1 sel all by (simp add: sv sh nil wr e1)
  have r2: "EnvWriter_Write plain ?b [secret_doc] []
       = (None, [''export FOO='' @ [CHR 0x22] @ ''test'' @ [CHR 0x22] @ [CHR 0x0A]])"
    using t2 sel all by (simp add: sv sh nil wr e2)
  have r3: "EnvWriter_Write plain ?b [raw_secret] []
       = (None, [''export FOO='' @ [CHR 0x22, CHR 0x5C] @ ''xff'' @ [CHR 0x5C] @ ''u00a0''
                   @ [CHR 0x22] @ [CHR 0x0A]])"
    using t3 sel3 all3 by (simp add: sv3 sh nil wr e3)
  have r4: "EnvWriter_Write plain ?f [secret_doc] []
       = (None, [''set -gx FOO '' @ [CHR 0x22] @ ''test'' @ [CHR 0x22] @ '';'' @ [CHR 0x0A]])"
    using t4 sel all by (simp add: sv sh3 nil wr e4)
  have c: "Count (envLine (PrintTable plain) ?w ''none'' ''FOO'' ''test'') (CHR 0x0A) = 1"
    using t1 by (simp add: Count_def)
  have dd: "map (\<lambda>kv. decodeOf plain secret_doc (snd kv)) (GetDataMap plain secret_doc)
       = [Inr ''test'', Inr ''x'', Inr (''a'' @ [CHR 0x0A] @ ''b'')]"
    by (simp add: dm dec d1 d2 d3)
  have dd3: "map (\<lambda>kv. decodeOf plain raw_secret (snd kv)) (GetDataMap plain raw_secret)
       = [Inr ?raw]"
    by (simp add: dm3 dec3 d4)
  have u: "\<not> Unset ?w" by simp
  have nn: "CHR 0x0A \<notin> set ''FOO''" "CHR 0x0A \<notin> set ''test''" by simp_all
  from sel dd u nn sv r1 r2 c sel3 dd3 r3 sh3 r4 show ?thesis by (intro conjI)
qed

text \<open>
  Claim C4 as stated fails: a pair whose key holds a newline survives (the key is only
  searched for a dot) and is written as two lines.
\<close>

theorem EnvWriter_Write_line_counterexample:
  "EnvWriter_Write plain \<lparr>Unset = False, Shell = ''none'', Selector = []\<rparr>
     [resource ''ConfigMap'' [(''A'' @ [CHR 0x0A] @ ''B'', ''x'')]] []
   = (None, [''A'' @ [CHR 0x0A] @ ''B=x'' @ [CHR 0x0A]])
   \<and> Count (''A'' @ [CHR 0x0A] @ ''B=x'' @ [CHR 0x0A]) (CHR 0x0A) = 2"
  by code_simp

section \<open>\<open>sort.SliceStable\<close> returns a permutation\<close>

text \<open>Every function of the sort returns, and returns the elements it was given, when
  the closure returns for the indices within the slice.  The premises on the indices
  are the ones that hold at the calls \<open>stable_func\<close> makes.\<close>

lemma Swap_perm:
  assumes "i < length xs" and "j < length xs"
  shows "\<exists>ys. Swap i j xs = Some ys \<and> mset ys = mset xs"
  using assms mset_swap [of j xs i] by (simp add: Swap_def)

lemma returns_onD:
  assumes "returns_on n cmp" and "length xs = n" and "i < n" and "j < n"
  shows "\<exists>lt. cmp xs i j = Some lt"
  using assms unfolding returns_on_def by blast

lemma insertDown_perm:
  assumes "returns_on (length xs) cmp" and "j < length xs"
  shows "\<exists>ys. insertDown cmp a j xs = Some ys \<and> mset ys = mset xs"
  using assms
proof (induction j arbitrary: xs)
  case 0
  then show ?case by (subst insertDown.simps) simp
next
  case (Suc j)
  show ?case
  proof (cases "a < Suc j")
    case False
    then show ?thesis by (subst insertDown.simps) simp
  next
    case True
    from returns_onD [OF Suc.prems(1) refl Suc.prems(2), of j] Suc.prems(2)
    obtain lt where lt: "cmp xs (Suc j) j = Some lt" by auto
    show ?thesis
    proof (cases lt)
      case False
      with lt True show ?thesis by (subst insertDown.simps) simp
    next
      case lt_true: True
      from Swap_perm [of "Suc j" xs j] Suc.prems(2)
      obtain ys where ys: "Swap (Suc j) j xs = Some ys" "mset ys = mset xs" by auto
      then have len: "length ys = length xs" by (metis mset_eq_length)
      from Suc.IH [of ys] Suc.prems len
      obtain zs where zs: "insertDown cmp a j ys = Some zs" "mset zs = mset ys" by auto
      have "insertDown cmp a (Suc j) xs = Some zs"
        using True lt lt_true ys zs by (subst insertDown.simps) simp
      with zs ys show ?thesis by simp
    qed
  qed
qed

lemma insertionSortFrom_perm:
  assumes "returns_on (length xs) cmp" and "b \<le> length xs"
  shows "\<exists>ys. insertionSortFrom cmp a b i xs = Some ys \<and> mset ys = mset xs"
  using assms
proof (induction "b - i" arbitrary: i xs)
  case 0
  then show ?case by (subst insertionSortFrom.simps) simp
next
  case (Suc k)
  then have ib: "i < b" by simp
  from insertDown_perm [OF Suc.prems(1), of i a] ib Suc.prems(2)
  obtain ys where ys: "insertDown cmp a i xs = Some ys" "mset ys = mset xs" by auto
  then have len: "length ys = length xs" by (metis mset_eq_length)
  have "k = b - (i + 1)" using Suc.hyps(2) by simp
  from Suc.hyps(1) [OF this, of ys] Suc.prems len
  obtain zs where zs: "insertionSortFrom cmp a b (i + 1) ys = Some zs" "mset zs = mset ys"
    by auto
  have "insertionSortFrom cmp a b i xs = Some zs"
    using ib ys zs by (subst insertionSortFrom.simps) simp
  with zs ys show ?case by simp
qed

lemma insertionSort_perm:
  assumes "returns_on (length xs) cmp" and "b \<le> length xs"
  shows "\<exists>ys. insertionSort cmp a b xs = Some ys \<and> mset ys = mset xs"
  unfolding insertionSort_def using assms by (rule insertionSortFrom_perm)

lemma swapRangeFrom_perm:
  assumes "a + n \<le> length xs" and "b + n \<le> length xs"
  shows "\<exists>ys. swapRangeFrom a b n i xs = Some ys \<and> mset ys = mset xs"
  using assms
proof (induction "n - i" arbitrary: i xs)
  case 0
  then show ?case by (subst swapRangeFrom.simps) simp
next
  case (Suc k)
  then have i: "i < n" by simp
  from Swap_perm [of "a + i" xs "b + i"] i Suc.prems
  obtain ys where ys: "Swap (a + i) (b + i) xs = Some ys" "mset ys = mset xs" by auto
  then have len: "length ys = length xs" by (metis mset_eq_length)
  have "k = n - (i + 1)" using Suc.hyps(2) by simp
  from Suc.hyps(1) [OF this, of ys] Suc.prems len
  obtain zs where zs: "swapRangeFrom a b n (i + 1) ys = Some zs" "mset zs = mset ys" by auto
  have "swapRangeFrom a b n i xs = Some zs"
    using i ys zs by (subst swapRangeFrom.simps) simp
  with zs ys show ?case by simp
qed

lemma swapRange_perm:
  assumes "a + n \<le> length xs" and "b + n \<le> length xs"
  shows "\<exists>ys. swapRange a b n xs = Some ys \<and> mset ys = mset xs"
  unfolding swapRange_def using assms by (rule swapRangeFrom_perm)

lemma rotateLoop_perm:
  assumes "0 < i" and "0 < j" and "i \<le> m" and "m + j \<le> length xs"
  shows "\<exists>ys. rotateLoop m i j xs = Some ys \<and> mset ys = mset xs"
  using assms
proof (induction "i + j" arbitrary: i j xs rule: less_induct)
  case less
  show ?case
  proof (cases "i = j")
    case True
    have "m - i + i \<le> length xs" "m + i \<le> length xs"
      using less.prems True by simp_all
    from swapRange_perm [OF this]
    obtain ys where "swapRange (m - i) m i xs = Some ys" "mset ys = mset xs" by auto
    with True show ?thesis by (subst rotateLoop.simps) simp
  next
    case False
    show ?thesis
    proof (cases "i > j")
      case True
      have "m - i + j \<le> length xs" "m + j \<le> length xs"
        using less.prems True by simp_all
      from swapRange_perm [OF this]
      obtain ys where ys: "swapRange (m - i) m j xs = Some ys" "mset ys = mset xs" by auto
      then have len: "length ys = length xs" by (metis mset_eq_length)
      have "i - j + j < i + j" "0 < i - j" "0 < j" "i - j \<le> m" "m + j \<le> length ys"
        using less.prems True len by simp_all
      from less.hyps [OF this]
      obtain zs where zs: "rotateLoop m (i - j) j ys = Some zs" "mset zs = mset ys" by auto
      have "rotateLoop m i j xs = Some zs"
        using False True ys zs by (subst rotateLoop.simps) simp
      with zs ys show ?thesis by simp
    next
      case ngt: False
      with False have lt: "i < j" by simp
      have "m - i + i \<le> length xs" "m + j - i + i \<le> length xs"
        using less.prems lt by simp_all
      from swapRange_perm [OF this]
      obtain ys where ys: "swapRange (m - i) (m + j - i) i xs = Some ys" "mset ys = mset xs"
        by auto
      then have len: "length ys = length xs" by (metis mset_eq_length)
      have "i + (j - i) < i + j" "0 < i" "0 < j - i" "i \<le> m" "m + (j - i) \<le> length ys"
        using less.prems lt len by simp_all
      from less.hyps [OF this]
      obtain zs where zs: "rotateLoop m i (j - i) ys = Some zs" "mset zs = mset ys" by auto
      have "rotateLoop m i j xs = Some zs"
        using False ngt ys zs by (subst rotateLoop.simps) simp
      with zs ys show ?thesis by simp
    qed
  qed
qed

lemma rotate_perm:
  assumes "a < m" and "m < b" and "b \<le> length xs"
  shows "\<exists>ys. rotate_func a m b xs = Some ys \<and> mset ys = mset xs"
  unfolding rotate_func_def using assms by (intro rotateLoop_perm) auto

lemma searchLow_bounds:
  assumes "returns_on (length xs) cmp" and "a < length xs" and "j \<le> length xs" and "i \<le> j"
  shows "\<exists>r. searchLow cmp xs a i j = Some r \<and> i \<le> r \<and> r \<le> j"
  using assms
proof (induction "j - i" arbitrary: i j rule: less_induct)
  case less
  show ?case
  proof (cases "i < j")
    case False
    with less.prems show ?thesis by (subst searchLow.simps) simp
  next
    case True
    let ?h = "(i + j) div 2"
    have h: "i \<le> ?h" "?h < j" using True by simp_all
    then have "?h < length xs" using less.prems(3) by simp
    from returns_onD [OF less.prems(1) refl this less.prems(2)]
    obtain lt where lt: "cmp xs ?h a = Some lt" by auto
    show ?thesis
    proof (cases lt)
      case True
      have "j - (?h + 1) < j - i" "?h + 1 \<le> j" using h by simp_all
      from less.hyps [OF this(1) less.prems(1,2,3) this(2)]
      obtain r where r: "searchLow cmp xs a (?h + 1) j = Some r" "?h + 1 \<le> r" "r \<le> j" by auto
      have "searchLow cmp xs a i j = Some r"
        using \<open>i < j\<close> lt True r(1) by (subst searchLow.simps) (simp add: Let_def)
      with r h show ?thesis by simp
    next
      case False
      have "?h - i < j - i" "?h \<le> length xs" using h less.prems(3) by simp_all
      from less.hyps [OF this(1) less.prems(1,2) this(2) h(1)]
      obtain r where r: "searchLow cmp xs a i ?h = Some r" "i \<le> r" "r \<le> ?h" by auto
      have "searchLow cmp xs a i j = Some r"
        using \<open>i < j\<close> lt False r(1) by (subst searchLow.simps) (simp add: Let_def)
      with r h show ?thesis by simp
    qed
  qed
qed

lemma searchHigh_bounds:
  assumes "returns_on (length xs) cmp" and "m < length xs" and "j \<le> length xs" and "i \<le> j"
  shows "\<exists>r. searchHigh cmp xs m i j = Some r \<and> i \<le> r \<and> r \<le> j"
  using assms
proof (induction "j - i" arbitrary: i j rule: less_induct)
  case less
  show ?case
  proof (cases "i < j")
    case False
    with less.prems show ?thesis by (subst searchHigh.simps) simp
  next
    case True
    let ?h = "(i + j) div 2"
    have h: "i \<le> ?h" "?h < j" using True by simp_all
    then have "?h < length xs" using less.prems(3) by simp
    from returns_onD [OF less.prems(1) refl less.prems(2) this]
    obtain lt where lt: "cmp xs m ?h = Some lt" by auto
    show ?thesis
    proof (cases lt)
      case False
      have "j - (?h + 1) < j - i" "?h + 1 \<le> j" using h by simp_all
      from less.hyps [OF this(1) less.prems(1,2,3) this(2)]
      obtain r where r: "searchHigh cmp xs m (?h + 1) j = Some r" "?h + 1 \<le> r" "r \<le> j" by auto
      have "searchHigh cmp xs m i j = Some r"
        using \<open>i < j\<close> lt False r(1) by (subst searchHigh.simps) (simp add: Let_def)
      with r h show ?thesis by simp
    next
      case True
      have "?h - i < j - i" "?h \<le> length xs" using h less.prems(3) by simp_all
      from less.hyps [OF this(1) less.prems(1,2) this(2) h(1)]
      obtain r where r: "searchHigh cmp xs m i ?h = Some r" "i \<le> r" "r \<le> ?h" by auto
      have "searchHigh cmp xs m i j = Some r"
        using \<open>i < j\<close> lt True r(1) by (subst searchHigh.simps) (simp add: Let_def)
      with r h show ?thesis by simp
    qed
  qed
qed

lemma searchSym_bounds:
  assumes "returns_on (length xs) cmp"
    and "\<forall>c. start \<le> c \<and> c < r \<longrightarrow> p - c < length xs \<and> c < length xs"
    and "start \<le> r"
  shows "\<exists>s. searchSym cmp xs p start r = Some s \<and> start \<le> s \<and> s \<le> r"
  using assms
proof (induction "r - start" arbitrary: start r rule: less_induct)
  case less
  show ?case
  proof (cases "start < r")
    case False
    with less.prems show ?thesis by (subst searchSym.simps) simp
  next
    case True
    let ?c = "(start + r) div 2"
    have c: "start \<le> ?c" "?c < r" using True by simp_all
    with less.prems(2) have "p - ?c < length xs" "?c < length xs" by blast+
    from returns_onD [OF less.prems(1) refl this]
    obtain lt where lt: "cmp xs (p - ?c) ?c = Some lt" by auto
    show ?thesis
    proof (cases lt)
      case False
      have m: "r - (?c + 1) < r - start" "?c + 1 \<le> r" using c by simp_all
      have b: "\<forall>d. ?c + 1 \<le> d \<and> d < r \<longrightarrow> p - d < length xs \<and> d < length xs"
        using less.prems(2) c by auto
      from less.hyps [OF m(1) less.prems(1) b m(2)]
      obtain s where s: "searchSym cmp xs p (?c + 1) r = Some s" "?c + 1 \<le> s" "s \<le> r" by auto
      have "searchSym cmp xs p start r = Some s"
        using \<open>start < r\<close> lt False s(1) by (subst searchSym.simps) (simp add: Let_def)
      with s c show ?thesis by simp
    next
      case True
      have m: "?c - start < r - start" using c by simp
      have b: "\<forall>d. start \<le> d \<and> d < ?c \<longrightarrow> p - d < length xs \<and> d < length xs"
        using less.prems(2) c by auto
      from less.hyps [OF m less.prems(1) b c(1)]
      obtain s where s: "searchSym cmp xs p start ?c = Some s" "start \<le> s" "s \<le> ?c" by auto
      have "searchSym cmp xs p start r = Some s"
        using \<open>start < r\<close> lt True s(1) by (subst searchSym.simps) (simp add: Let_def)
      with s c show ?thesis by simp
    qed
  qed
qed

lemma swapUp_perm:
  assumes "i \<le> length xs"
  shows "\<exists>ys. swapUp k i xs = Some ys \<and> mset ys = mset xs"
  using assms
proof (induction "i - k" arbitrary: k xs rule: less_induct)
  case less
  show ?case
  proof (cases "k + 1 < i")
    case False
    then show ?thesis by (subst swapUp.simps) simp
  next
    case True
    have "k < length xs" "k + 1 < length xs" using True less.prems by simp_all
    from Swap_perm [OF this]
    obtain ys where ys: "Swap k (k + 1) xs = Some ys" "mset ys = mset xs" by auto
    then have len: "length ys = length xs" by (metis mset_eq_length)
    have "i - (k + 1) < i - k" "i \<le> length ys" using True less.prems len by simp_all
    from less.hyps [OF this]
    obtain zs where zs: "swapUp (k + 1) i ys = Some zs" "mset zs = mset ys" by auto
    have "swapUp k i xs = Some zs"
      using True ys zs by (subst swapUp.simps) simp
    with zs ys show ?thesis by simp
  qed
qed

lemma swapDown_perm:
  assumes "k < length xs"
  shows "\<exists>ys. swapDown k i xs = Some ys \<and> mset ys = mset xs"
  using assms
proof (induction k arbitrary: xs)
  case 0
  then show ?case by (subst swapDown.simps) simp
next
  case (Suc k)
  show ?case
  proof (cases "Suc k > i")
    case False
    then show ?thesis by (subst swapDown.simps) simp
  next
    case True
    have "Suc k < length xs" "k < length xs" using Suc.prems by simp_all
    from Swap_perm [OF this]
    obtain ys where ys: "Swap (Suc k) k xs = Some ys" "mset ys = mset xs" by auto
    then have len: "length ys = length xs" by (metis mset_eq_length)
    from Suc.IH [of ys] Suc.prems len
    obtain zs where zs: "swapDown k i ys = Some zs" "mset zs = mset ys" by auto
    have "swapDown (Suc k) i xs = Some zs"
      using True ys zs by (subst swapDown.simps) simp
    with zs ys show ?thesis by simp
  qed
qed

lemma symMerge_perm:
  assumes "returns_on (length xs) cmp" and "a < m" and "m < b" and "b \<le> length xs"
  shows "\<exists>ys. symMerge cmp a m b xs = Some ys \<and> mset ys = mset xs"
  using assms
proof (induction "b - a" arbitrary: a m b xs rule: less_induct)
  case less
  note tot = less.prems(1)
  consider (one_left) "m - a = 1" | (one_right) "m - a \<noteq> 1" "b - m = 1"
    | (general) "m - a \<noteq> 1" "b - m \<noteq> 1"
    by blast
  then show ?case
  proof cases
    case one_left
    have "a < length xs" "b \<le> length xs" "m \<le> b" using less.prems by simp_all
    from searchLow_bounds [OF tot this]
    obtain i where i: "searchLow cmp xs a m b = Some i" "m \<le> i" "i \<le> b" by auto
    then have "i \<le> length xs" using less.prems(4) by simp
    from swapUp_perm [OF this, of a]
    obtain ys where ys: "swapUp a i xs = Some ys" "mset ys = mset xs" by auto
    have "symMerge cmp a m b xs = Some ys"
      using one_left i(1) ys(1) by (subst symMerge.simps) simp
    with ys show ?thesis by simp
  next
    case one_right
    have "m < length xs" "m \<le> length xs" "a \<le> m" using less.prems by simp_all
    from searchHigh_bounds [OF tot this]
    obtain i where i: "searchHigh cmp xs m a m = Some i" by auto
    from swapDown_perm [OF \<open>m < length xs\<close>, of i]
    obtain ys where ys: "swapDown m i xs = Some ys" "mset ys = mset xs" by auto
    have "symMerge cmp a m b xs = Some ys"
      using one_right i(1) ys(1) by (subst symMerge.simps) simp
    with ys show ?thesis by simp
  next
    case general
    let ?mid = "(a + b) div 2"
    let ?n = "?mid + m"
    let ?start = "if m > ?mid then ?n - b else a"
    let ?r = "if m > ?mid then ?mid else m"
    let ?p = "?n - 1"
    have am: "a + 2 \<le> m" and mb: "m + 2 \<le> b"
      using general less.prems(2,3) by simp_all
    have mid: "2 * ?mid \<le> a + b" "a + b < 2 * ?mid + 2" by simp_all
    have mid_a: "a < ?mid" and mid_b: "?mid < b" using am mb by simp_all
    have sr: "?start \<le> ?r"
    proof (cases "m > ?mid")
      case True
      have "?n - b \<le> ?mid" using less.prems(3) by linarith
      with True show ?thesis by simp
    next
      case False
      with less.prems(2) show ?thesis by simp
    qed
    have bnd: "\<forall>c. ?start \<le> c \<and> c < ?r \<longrightarrow> ?p - c < length xs \<and> c < length xs"
    proof (intro allI impI)
      fix c assume c: "?start \<le> c \<and> c < ?r"
      show "?p - c < length xs \<and> c < length xs"
      proof (cases "m > ?mid")
        case True
        with c have "?n - b \<le> c" "c < ?mid" by simp_all
        with True mid less.prems(4) mid_b show ?thesis by linarith
      next
        case False
        with c have "a \<le> c" "c < m" by simp_all
        with False mid less.prems(3,4) show ?thesis by linarith
      qed
    qed
    from searchSym_bounds [OF tot bnd sr]
    obtain s where s: "searchSym cmp xs ?p ?start ?r = Some s" "?start \<le> s" "s \<le> ?r" by blast
    let ?e = "?n - s"
    have e_b: "?e \<le> b"
    proof (cases "m > ?mid")
      case True
      with s(2) have "?n - b \<le> s" by simp
      with True mid show ?thesis by linarith
    next
      case False
      with s(2) have "a \<le> s" by simp
      with False mid show ?thesis by linarith
    qed
    have "\<exists>ys. (if s < m \<and> m < ?e then rotate_func s m ?e xs else Some xs) = Some ys
            \<and> mset ys = mset xs"
    proof (cases "s < m \<and> m < ?e")
      case True
      then have "s < m" "m < ?e" by simp_all
      moreover have "?e \<le> length xs" using e_b less.prems(4) by simp
      ultimately show ?thesis
        unfolding if_P [OF True] by (rule rotate_perm)
    next
      case False
      show ?thesis unfolding if_not_P [OF False] by simp
    qed
    then obtain ys where ys: "(if s < m \<and> m < ?e then rotate_func s m ?e xs else Some xs) = Some ys"
      "mset ys = mset xs" by blast
    then have len_ys: "length ys = length xs" by (metis mset_eq_length)
    have "\<exists>zs. (if a < s \<and> s < ?mid then symMerge cmp a s ?mid ys else Some ys) = Some zs
            \<and> mset zs = mset ys"
    proof (cases "a < s \<and> s < ?mid")
      case True
      have "?mid - a < b - a" using mid_b mid_a by simp
      moreover have "returns_on (length ys) cmp" using tot len_ys by simp
      moreover have "a < s" "s < ?mid" using True by simp_all
      moreover have "?mid \<le> length ys" using mid_b less.prems(4) len_ys by simp
      ultimately show ?thesis
        unfolding if_P [OF True] by (rule less.hyps)
    next
      case False
      show ?thesis unfolding if_not_P [OF False] by simp
    qed
    then obtain zs where
      zs: "(if a < s \<and> s < ?mid then symMerge cmp a s ?mid ys else Some ys) = Some zs"
      "mset zs = mset ys" by blast
    then have len_zs: "length zs = length xs" using len_ys by (metis mset_eq_length)
    have "\<exists>ws. (if ?mid < ?e \<and> ?e < b then symMerge cmp ?mid ?e b zs else Some zs) = Some ws
            \<and> mset ws = mset zs"
    proof (cases "?mid < ?e \<and> ?e < b")
      case True
      have "b - ?mid < b - a" using mid_b mid_a by simp
      moreover have "returns_on (length zs) cmp" using tot len_zs by simp
      moreover have "?mid < ?e" "?e < b" using True by simp_all
      moreover have "b \<le> length zs" using less.prems(4) len_zs by simp
      ultimately show ?thesis
        unfolding if_P [OF True] by (rule less.hyps)
    next
      case False
      show ?thesis unfolding if_not_P [OF False] by simp
    qed
    then obtain ws where
      ws: "(if ?mid < ?e \<and> ?e < b then symMerge cmp ?mid ?e b zs else Some zs) = Some ws"
      "mset ws = mset zs" by blast
    have "symMerge cmp a m b xs =
        do {
          start \<leftarrow> searchSym cmp xs ?p ?start ?r;
          ys \<leftarrow> (if start < m \<and> m < ?n - start then rotate_func start m (?n - start) xs else Some xs);
          zs \<leftarrow> (if a < start \<and> start < ?mid then symMerge cmp a start ?mid ys else Some ys);
          if ?mid < ?n - start \<and> ?n - start < b then symMerge cmp ?mid (?n - start) b zs
          else Some zs
        }"
      using general by (subst symMerge.simps) (simp only: Let_def if_False)
    also have "\<dots> = Some ws"
      by (simp only: s(1) bind.bind_lunit ys(1) zs(1) ws(1))
    finally show ?thesis using ws(2) zs(2) ys(2) by simp
  qed
qed

lemma sortBlocks_perm:
  assumes "returns_on n cmp" and "length xs = n" and "0 < blockSize"
  shows "\<exists>ys. sortBlocks cmp blockSize a b n xs = Some ys \<and> mset ys = mset xs"
  using assms
proof (induction "n + 1 - b" arbitrary: a b xs rule: less_induct)
  case less
  have tot: "returns_on (length xs) cmp" using less.prems by simp
  show ?case
  proof (cases "b \<le> n")
    case True
    then have "b \<le> length xs" using less.prems by simp
    from insertionSort_perm [OF tot this, of a]
    obtain ys where ys: "insertionSort cmp a b xs = Some ys" "mset ys = mset xs" by auto
    then have len: "length ys = n" using less.prems(2) by (metis mset_eq_length)
    have "n + 1 - (b + blockSize) < n + 1 - b" using True less.prems(3) by simp
    from less.hyps [OF this less.prems(1) len less.prems(3), of b]
    obtain zs where zs: "sortBlocks cmp blockSize b (b + blockSize) n ys = Some zs"
      "mset zs = mset ys" by auto
    have "sortBlocks cmp blockSize a b n xs = Some zs"
      using True ys zs by (subst sortBlocks.simps) simp
    with zs ys show ?thesis by simp
  next
    case False
    have "n \<le> length xs" using less.prems by simp
    from insertionSort_perm [OF tot this, of a]
    obtain ys where ys: "insertionSort cmp a n xs = Some ys" "mset ys = mset xs" by auto
    have "sortBlocks cmp blockSize a b n xs = Some ys"
      using False ys by (subst sortBlocks.simps) simp
    with ys show ?thesis by simp
  qed
qed

lemma mergeBlocks_perm:
  assumes "returns_on n cmp" and "length xs = n" and "0 < blockSize" and "b = a + 2 * blockSize"
  shows "\<exists>ys. mergeBlocks cmp blockSize a b n xs = Some ys \<and> mset ys = mset xs"
  using assms
proof (induction "n + 1 - b" arbitrary: a b xs rule: less_induct)
  case less
  have tot: "returns_on (length xs) cmp" using less.prems by simp
  show ?case
  proof (cases "b \<le> n")
    case True
    have "a < a + blockSize" "a + blockSize < b" "b \<le> length xs"
      using True less.prems by simp_all
    from symMerge_perm [OF tot this]
    obtain ys where ys: "symMerge cmp a (a + blockSize) b xs = Some ys" "mset ys = mset xs"
      by auto
    then have len: "length ys = n" using less.prems(2) by (metis mset_eq_length)
    have "n + 1 - (b + 2 * blockSize) < n + 1 - b" using True less.prems(3) by simp
    from less.hyps [OF this less.prems(1) len less.prems(3) refl]
    obtain zs where zs: "mergeBlocks cmp blockSize b (b + 2 * blockSize) n ys = Some zs"
      "mset zs = mset ys" by auto
    have "mergeBlocks cmp blockSize a b n xs = Some zs"
      using True ys zs by (subst mergeBlocks.simps) simp
    with zs ys show ?thesis by simp
  next
    case False
    show ?thesis
    proof (cases "a + blockSize < n")
      case True
      have "a < a + blockSize" "a + blockSize < n" "n \<le> length xs"
        using True less.prems by simp_all
      from symMerge_perm [OF tot this]
      obtain ys where ys: "symMerge cmp a (a + blockSize) n xs = Some ys" "mset ys = mset xs"
        by auto
      have "mergeBlocks cmp blockSize a b n xs = Some ys"
        using False True ys by (subst mergeBlocks.simps) (simp add: Let_def)
      with ys show ?thesis by simp
    next
      case nm: False
      have "mergeBlocks cmp blockSize a b n xs = Some xs"
        using False nm by (subst mergeBlocks.simps) (simp add: Let_def)
      then show ?thesis by simp
    qed
  qed
qed

lemma mergePasses_perm:
  assumes "returns_on n cmp" and "length xs = n" and "0 < blockSize"
  shows "\<exists>ys. mergePasses cmp blockSize n xs = Some ys \<and> mset ys = mset xs"
  using assms
proof (induction "n - blockSize" arbitrary: blockSize xs rule: less_induct)
  case less
  show ?case
  proof (cases "blockSize < n")
    case True
    from mergeBlocks_perm [OF less.prems(1,2,3), of "2 * blockSize" 0]
    obtain ys where ys: "mergeBlocks cmp blockSize 0 (2 * blockSize) n xs = Some ys"
      "mset ys = mset xs" by auto
    then have len: "length ys = n" using less.prems(2) by (metis mset_eq_length)
    have "n - 2 * blockSize < n - blockSize" "0 < 2 * blockSize"
      using True less.prems(3) by simp_all
    from less.hyps [OF this(1) less.prems(1) len this(2)]
    obtain zs where zs: "mergePasses cmp (2 * blockSize) n ys = Some zs" "mset zs = mset ys"
      by auto
    have "mergePasses cmp blockSize n xs = Some zs"
      using True ys zs by (subst mergePasses.simps) simp
    with zs ys show ?thesis by simp
  next
    case False
    then have "mergePasses cmp blockSize n xs = Some xs"
      by (subst mergePasses.simps) simp
    then show ?thesis by simp
  qed
qed

lemma SliceStable_perm:
  assumes "returns_on (length xs) cmp"
  shows "\<exists>ys. SliceStable cmp xs = Some ys \<and> mset ys = mset xs"
proof -
  from sortBlocks_perm [OF assms refl, of 20 0 20]
  obtain ys where ys: "sortBlocks cmp 20 0 20 (length xs) xs = Some ys" "mset ys = mset xs"
    by auto
  then have len: "length ys = length xs" by (metis mset_eq_length)
  from mergePasses_perm [OF assms len, of 20]
  obtain zs where zs: "mergePasses cmp 20 (length xs) ys = Some zs" "mset zs = mset ys"
    by auto
  have "SliceStable cmp xs = Some zs"
    using ys zs by (simp add: SliceStable_def stable_def)
  with zs ys show ?thesis by simp
qed

lemma returns_on_ordinalLess: "returns_on (length ords) (ordinalLess ords)"
  by (simp add: returns_on_def ordinalLess_def)

section \<open>Properties of the grouping writer\<close>

lemma classify_error:
  assumes "i < length nodes" and "groupNode (nodes ! i) = Inl err"
    and "\<forall>j<i. \<exists>p. groupNode (nodes ! j) = Inr p"
  shows "classify groupNode nodes result ordinal = Inl err"
  using assms
proof (induction nodes arbitrary: i result ordinal)
  case Nil
  then show ?case by simp
next
  case (Cons n nodes)
  show ?case
  proof (cases i)
    case 0
    with Cons.prems show ?thesis by simp
  next
    case (Suc k)
    with Cons.prems(3) obtain g ord where p: "groupNode n = Inr (g, ord)" by fastforce
    have "k < length nodes" "groupNode (nodes ! k) = Inl err"
      using Cons.prems(1,2) Suc by simp_all
    moreover have "\<forall>j<k. \<exists>p. groupNode (nodes ! j) = Inr p"
      using Cons.prems(3) Suc by fastforce
    ultimately have "classify groupNode nodes (appendTo g n result) (appendTo g ord ordinal)
        = Inl err"
      by (rule Cons.IH)
    with p show ?thesis by simp
  qed
qed

text \<open>
  Claim C7.  When the classifier returns an error for a document (and for none before
  it), \<open>Write\<close> returns that error, and the state of the world is the one it was called
  in: no function that obtains a stream or writes to one has been applied to it.  The
  documents classified are the ones that the white space restorer returns when it is
  switched on.
\<close>

theorem GroupWriter_Write_classifier_error:
  assumes "i < length (prepared w nodes)"
    and "groupNodeOf X w (prepared w nodes ! i) = Inl err"
    and "\<forall>j<i. \<exists>p. groupNodeOf X w (prepared w nodes ! j) = Inr p"
  shows "GroupWriter_Write order X w nodes s = Some (Some err, s)"
proof -
  have "classify (groupNodeOf X w) (prepared w nodes) [] [] = Inl err"
    using assms by (rule classify_error)
  then have "indexNodes (groupNodeOf X w) (prepared w nodes) = Some (Inl err)"
    by (simp add: indexNodes_def)
  then show ?thesis
    by (simp add: GroupWriter_Write_def prepared_def Let_def)
qed

theorem GroupWriter_Write_classifier_error_witness:
  "1 < length (prepared grouping one_unclassified)
   \<and> groupNodeOf logging grouping (prepared grouping one_unclassified ! 1)
       = Inl (ErrorString ''no group'')
   \<and> groupNodeOf logging grouping (prepared grouping one_unclassified ! 0) = Inr (''f'', ''1'')
   \<and> GroupWriter_Write rev logging grouping one_unclassified []
       = Some (Some (ErrorString ''no group''), [])"
proof -
  have l: "1 < length (prepared grouping one_unclassified)" by code_simp
  have e: "groupNodeOf logging grouping (prepared grouping one_unclassified ! 1)
       = Inl (ErrorString ''no group'')" by code_simp
  have o: "groupNodeOf logging grouping (prepared grouping one_unclassified ! 0) = Inr (''f'', ''1'')"
    by code_simp
  have a: "\<forall>j<1. \<exists>p. groupNodeOf logging grouping (prepared grouping one_unclassified ! j) = Inr p"
    using o by simp
  from GroupWriter_Write_classifier_error [OF l e a, of rev "[]"] l e o
  show ?thesis by simp
qed

text \<open>
  Claim C2, on the code.  The three documents of \<open>out_of_order\<close> are in one group and
  carry the ordinals 1, 2 and 0.  \<open>indexNodes\<close> returns them in the order 1, 0, 2: the
  closure reads the ordinal at an index from the list of ordinals, which stays in the
  order of the input while the sort moves the documents, so after the first swap it
  compares ordinals of other documents than the ones at the two indices.
\<close>

theorem indexNodes_out_of_order:
  "indexNodes byFields out_of_order
     = Some (Inr [(''f'', [grouped ''A'' ''f'' ''1'', grouped ''C'' ''f'' ''0'',
                           grouped ''B'' ''f'' ''2''])])"
  by code_simp

subsection \<open>The index is a partition of the documents\<close>

lemma appendTo_keys:
  "map fst (appendTo g v m) = (if g \<in> set (map fst m) then map fst m else map fst m @ [g])"
  by (induction m) (force split: if_splits)+

lemma appendTo_distinct: "distinct (map fst m) \<Longrightarrow> distinct (map fst (appendTo g v m))"
  by (simp add: appendTo_keys)

lemma appendTo_mset:
  "mset (concat (map snd (appendTo g v m))) = mset (concat (map snd m)) + {#v#}"
  by (induction m) auto

lemma appendTo_homogeneous:
  assumes "\<forall>(k, vs) \<in> set m. vs \<noteq> [] \<and> (\<forall>d \<in> set vs. f d = k)" and "f v = g"
  shows "\<forall>(k, vs) \<in> set (appendTo g v m). vs \<noteq> [] \<and> (\<forall>d \<in> set vs. f d = k)"
  using assms by (induction m) (fastforce split: if_splits)+

lemma appendTo_shape:
  assumes "map (\<lambda>(k, vs). (k, length vs)) r = map (\<lambda>(k, vs). (k, length vs)) ordinal"
  shows "map (\<lambda>(k, vs). (k, length vs)) (appendTo g v r)
       = map (\<lambda>(k, vs). (k, length vs)) (appendTo g ord ordinal)"
  using assms
proof (induction r arbitrary: ordinal)
  case Nil
  then show ?case by simp
next
  case (Cons p r)
  then obtain q os where o: "ordinal = q # os" by (cases ordinal) auto
  with Cons.prems have "map (\<lambda>(k, vs). (k, length vs)) r = map (\<lambda>(k, vs). (k, length vs)) os"
    by simp
  from Cons.IH [OF this] Cons.prems o show ?case
    by (cases p; cases q) auto
qed

lemma shape_entry:
  assumes "map (\<lambda>(k, vs). (k, length vs)) r = map (\<lambda>(k, vs). (k, length vs)) ordinal"
    and "distinct (map fst r)" and "(g, ns) \<in> set r"
  shows "length (entry ordinal g) = length ns"
  using assms
proof (induction r arbitrary: ordinal)
  case Nil
  then show ?case by simp
next
  case (Cons p r)
  then obtain q os where o: "ordinal = q # os" by (cases ordinal) auto
  obtain k vs where p: "p = (k, vs)" by (cases p)
  obtain k' ws where q: "q = (k', ws)" by (cases q)
  from Cons.prems(1) o p q have kk: "k' = k" "length ws = length vs"
    and sh: "map (\<lambda>(k, vs). (k, length vs)) r = map (\<lambda>(k, vs). (k, length vs)) os"
    by simp_all
  show ?case
  proof (cases "g = k")
    case True
    with Cons.prems(2,3) p have "ns = vs"
      by (auto simp: image_iff)
    with True kk o q show ?thesis by (simp add: entry_def)
  next
    case False
    with Cons.prems(3) p have mem: "(g, ns) \<in> set r" by simp
    from Cons.prems(2) have "distinct (map fst r)" by simp
    from Cons.IH [OF sh this mem] False kk o q show ?thesis by (simp add: entry_def)
  qed
qed

lemma classify_invariant:
  assumes "classify groupNode nodes r0 o0 = Inr (result, ordinal)"
    and "distinct (map fst r0)"
    and "\<forall>(k, vs) \<in> set r0. vs \<noteq> [] \<and> (\<forall>d \<in> set vs. groupOf groupNode d = k)"
    and "map (\<lambda>(k, vs). (k, length vs)) r0 = map (\<lambda>(k, vs). (k, length vs)) o0"
  shows "distinct (map fst result)
       \<and> (\<forall>(k, vs) \<in> set result. vs \<noteq> [] \<and> (\<forall>d \<in> set vs. groupOf groupNode d = k))
       \<and> map (\<lambda>(k, vs). (k, length vs)) result = map (\<lambda>(k, vs). (k, length vs)) ordinal
       \<and> mset (concat (map snd result)) = mset (concat (map snd r0)) + mset nodes"
  using assms
proof (induction nodes arbitrary: r0 o0)
  case Nil
  then show ?case by simp
next
  case (Cons n nodes)
  from Cons.prems(1) obtain g ord where p: "groupNode n = Inr (g, ord)"
    by (cases "groupNode n") auto
  then have gn: "groupOf groupNode n = g" by (simp add: groupOf_def)
  from Cons.prems(1) p
  have c: "classify groupNode nodes (appendTo g n r0) (appendTo g ord o0) = Inr (result, ordinal)"
    by simp
  have d: "distinct (map fst (appendTo g n r0))"
    using Cons.prems(2) by (rule appendTo_distinct)
  have h: "\<forall>(k, vs) \<in> set (appendTo g n r0). vs \<noteq> [] \<and> (\<forall>d \<in> set vs. groupOf groupNode d = k)"
    using Cons.prems(3) gn by (rule appendTo_homogeneous)
  have s: "map (\<lambda>(k, vs). (k, length vs)) (appendTo g n r0)
         = map (\<lambda>(k, vs). (k, length vs)) (appendTo g ord o0)"
    using Cons.prems(4) by (rule appendTo_shape)
  from Cons.IH [OF c d h s] show ?case
    by (simp add: appendTo_mset)
qed

lemma classify_total:
  assumes "\<forall>n \<in> set nodes. \<exists>p. groupNode n = Inr p"
  shows "\<exists>r. classify groupNode nodes r0 o0 = Inr r"
  using assms
proof (induction nodes arbitrary: r0 o0)
  case Nil
  then show ?case by simp
next
  case (Cons n nodes)
  then obtain g ord where "groupNode n = Inr (g, ord)" by force
  with Cons show ?case by simp
qed

lemma sortGroups_perm:
  assumes "\<forall>(g, ns) \<in> set result. length (entry ordinal g) = length ns"
  shows "\<exists>srt. sortGroups ordinal result = Some srt
           \<and> list_all2 (\<lambda>(g, ns) (g', ns'). g' = g \<and> mset ns' = mset ns) result srt"
  using assms
proof (induction result)
  case Nil
  then show ?case by simp
next
  case (Cons p result)
  obtain g ns where p: "p = (g, ns)" by (cases p)
  with Cons.prems have len: "length (entry ordinal g) = length ns" by simp
  have "returns_on (length ns) (ordinalLess (entry ordinal g))"
    using returns_on_ordinalLess [of "entry ordinal g"] len by simp
  from SliceStable_perm [OF this]
  obtain ns' where ns': "SliceStable (ordinalLess (entry ordinal g)) ns = Some ns'"
    "mset ns' = mset ns" by auto
  from Cons.IH Cons.prems
  obtain rest where rest: "sortGroups ordinal result = Some rest"
    "list_all2 (\<lambda>(g, ns) (g', ns'). g' = g \<and> mset ns' = mset ns) result rest" by auto
  show ?case using p ns' rest by simp
qed

lemma sorted_groups_same:
  assumes "list_all2 (\<lambda>(g, ns) (g', ns'). g' = g \<and> mset ns' = mset ns) result srt"
  shows "map fst srt = map fst result
       \<and> mset (concat (map snd srt)) = mset (concat (map snd result))
       \<and> ((\<forall>(k, vs) \<in> set result. vs \<noteq> [] \<and> (\<forall>d \<in> set vs. f d = k))
            \<longrightarrow> (\<forall>(k, vs) \<in> set srt. vs \<noteq> [] \<and> (\<forall>d \<in> set vs. f d = k)))"
  using assms
proof (induction rule: list_all2_induct)
  case Nil
  then show ?case by simp
next
  case (Cons p result q srt)
  obtain g ns where p: "p = (g, ns)" by (cases p)
  obtain g' ns' where q: "q = (g', ns')" by (cases q)
  from Cons.hyps(1) p q have e: "g' = g" "mset ns' = mset ns" by simp_all
  then have "set ns' = set ns" by (metis mset_eq_setD)
  moreover have "ns' = [] \<longleftrightarrow> ns = []" using e(2) by (metis mset_zero_iff)
  ultimately show ?case using Cons.IH p q e by auto
qed

lemma indexNodes_returns: "\<exists>r. indexNodes groupNode nodes = Some r"
proof (cases "classify groupNode nodes [] []")
  case (Inl err)
  then show ?thesis by (simp add: indexNodes_def)
next
  case (Inr r)
  obtain result ordinal where r: "r = (result, ordinal)" by (cases r)
  from classify_invariant [of groupNode nodes "[]" "[]" result ordinal] Inr r
  have d: "distinct (map fst result)"
    and s: "map (\<lambda>(k, vs). (k, length vs)) result = map (\<lambda>(k, vs). (k, length vs)) ordinal"
    by simp_all
  have "\<forall>(g, ns) \<in> set result. length (entry ordinal g) = length ns"
    using shape_entry [OF s d] by auto
  from sortGroups_perm [OF this] obtain srt where "sortGroups ordinal result = Some srt"
    by auto
  with Inr r show ?thesis by (simp add: indexNodes_def)
qed

lemma indexNodes_partition:
  assumes "\<forall>n \<in> set nodes. \<exists>p. groupNode n = Inr p"
  shows "\<exists>indexed. indexNodes groupNode nodes = Some (Inr indexed)
           \<and> distinct (map fst indexed)
           \<and> (\<forall>(g, ds) \<in> set indexed. ds \<noteq> [] \<and> (\<forall>d \<in> set ds. groupOf groupNode d = g))
           \<and> mset (concat (map snd indexed)) = mset nodes"
proof -
  from classify_total [OF assms, of "[]" "[]"]
  obtain result ordinal where c: "classify groupNode nodes [] [] = Inr (result, ordinal)"
    by force
  from classify_invariant [OF c]
  have d: "distinct (map fst result)"
    and h: "\<forall>(k, vs) \<in> set result. vs \<noteq> [] \<and> (\<forall>d \<in> set vs. groupOf groupNode d = k)"
    and s: "map (\<lambda>(k, vs). (k, length vs)) result = map (\<lambda>(k, vs). (k, length vs)) ordinal"
    and m: "mset (concat (map snd result)) = mset nodes"
    by simp_all
  have "\<forall>(g, ns) \<in> set result. length (entry ordinal g) = length ns"
    using shape_entry [OF s d] by auto
  from sortGroups_perm [OF this] obtain srt where
    srt: "sortGroups ordinal result = Some srt"
    "list_all2 (\<lambda>(g, ns) (g', ns'). g' = g \<and> mset ns' = mset ns) result srt" by auto
  from sorted_groups_same [OF srt(2), of "groupOf groupNode"] h d m
  have "distinct (map fst srt)"
    "\<forall>(g, ds) \<in> set srt. ds \<noteq> [] \<and> (\<forall>d \<in> set ds. groupOf groupNode d = g)"
    "mset (concat (map snd srt)) = mset nodes"
    by simp_all
  moreover have "indexNodes groupNode nodes = Some (Inr srt)"
    using c srt(1) by (simp add: indexNodes_def)
  ultimately show ?thesis by blast
qed

subsection \<open>The loop over the groups\<close>

lemma prepared_map: "prepared w nodes = map (restored w) nodes"
  by (induction nodes) (simp_all add: prepared_def restored_def restoreVerticalWhiteSpace_def)

lemma writeGroups_ok:
  assumes wr: "\<forall>out bw ds s. fst (WriteTo X out bw ds s) = None
                 \<and> log (snd (WriteTo X out bw ds s)) = log s @ [(out, ds)]"
    and cl: "\<forall>out c s. Close X out = Some c \<longrightarrow> log (c s) = log s"
    and fac: "\<forall>name s. fst (groupWriterOf X w name s) = factory name
                 \<and> log (snd (groupWriterOf X w name s)) = log s"
    and ok: "\<forall>(g, ds) \<in> set groups. \<exists>h. factory g = Inr h"
  shows "fst (writeGroups X w groups s) = None
       \<and> log (snd (writeGroups X w groups s)) = log s @ written factory groups"
  using ok
proof (induction groups arbitrary: s)
  case Nil
  then show ?case by (simp add: written_def)
next
  case (Cons p groups)
  obtain g ds where p: "p = (g, ds)" by (cases p)
  obtain s1 where f1: "groupWriterOf X w g s = (factory g, s1)" and l1: "log s1 = log s"
    using fac by (metis prod.collapse)
  from Cons.prems p obtain h where h: "factory g = Inr h" by auto
  have rest: "\<forall>(g, ds) \<in> set groups. \<exists>h. factory g = Inr h" using Cons.prems by simp
  show ?case
  proof (cases h)
    case None
    have "writeGroups X w (p # groups) s = writeGroups X w groups s1"
      by (simp add: p f1 h None)
    moreover have "written factory (p # groups) = written factory groups"
      by (simp add: written_def p h None)
    ultimately show ?thesis using Cons.IH [OF rest, of s1] l1 by simp
  next
    case (Some out)
    let ?bw = "\<lparr>ByteWriter.KeepReaderAnnotations = GroupWriter.KeepReaderAnnotations w,
                ClearAnnotations = clearAnnotationsOf w,
                Sort = GroupWriter.Sort w\<rparr>"
    obtain s2 where w2: "WriteTo X out ?bw ds s1 = (None, s2)"
      and l2: "log s2 = log s1 @ [(out, ds)]"
      using wr by (metis prod.collapse)
    define s3 where "s3 = (case Close X out of Some close \<Rightarrow> close s2 | None \<Rightarrow> s2)"
    have l3: "log s3 = log s2"
      using cl by (auto simp: s3_def split: option.splits)
    have "writeGroups X w (p # groups) s = writeGroups X w groups s3"
      by (simp add: p f1 h Some w2 s3_def)
    moreover have "written factory (p # groups) = (out, ds) # written factory groups"
      by (simp add: written_def p h Some)
    ultimately show ?thesis using Cons.IH [OF rest, of s3] l1 l2 l3 by simp
  qed
qed

lemma writeGroups_sinks:
  assumes fac: "\<forall>name s. fst (groupWriterOf X w name s) = factory name
                  \<and> log (snd (groupWriterOf X w name s)) = log s"
    and ok: "fst (writeGroups X w groups s) = None"
  shows "\<forall>(g, ds) \<in> set groups. \<exists>h. factory g = Inr h"
  using ok
proof (induction groups arbitrary: s)
  case Nil
  then show ?case by simp
next
  case (Cons p groups)
  obtain g ds where p: "p = (g, ds)" by (cases p)
  obtain s1 where f1: "groupWriterOf X w g s = (factory g, s1)"
    using fac by (metis prod.collapse)
  show ?case
  proof (cases "factory g")
    case (Inl err)
    with Cons.prems p f1 show ?thesis by simp
  next
    case (Inr h)
    have "\<exists>s'. fst (writeGroups X w groups s') = None"
    proof (cases h)
      case None
      with Inr Cons.prems p f1 show ?thesis by auto
    next
      case (Some out)
      with Inr Cons.prems p f1 show ?thesis
        by (auto simp: Let_def split: prod.splits option.splits)
    qed
    then obtain s' where "fst (writeGroups X w groups s') = None" by blast
    from Cons.IH [OF this] Inr p show ?thesis by simp
  qed
qed

lemma written_documents:
  "mset (concat (map snd (written factory groups)))
     = (\<Sum>p \<in># mset groups.
          if \<exists>out. factory (fst p) = Inr (Some out) then mset (snd p) else {#})"
proof (induction groups)
  case Nil
  then show ?case by (simp add: written_def)
next
  case (Cons p groups)
  obtain g ds where p: "p = (g, ds)" by (cases p)
  have "mset (concat (map snd (written factory (p # groups))))
      = (if \<exists>out. factory g = Inr (Some out) then mset ds else {#})
        + mset (concat (map snd (written factory groups)))"
    by (auto simp: written_def p split: sum.splits option.splits)
  with Cons.IH p show ?case by simp
qed

lemma homogeneous_filter:
  assumes "\<forall>(g, ds) \<in> set groups. (\<forall>d \<in> set ds. f d = g) \<and> (Q g \<longleftrightarrow> S g)"
  shows "(\<Sum>p \<in># mset groups. if S (fst p) then mset (snd p) else {#})
       = filter_mset (\<lambda>d. Q (f d)) (mset (concat (map snd groups)))"
  using assms
proof (induction groups)
  case Nil
  then show ?case by simp
next
  case (Cons p groups)
  obtain g ds where p: "p = (g, ds)" by (cases p)
  with Cons.prems have h: "\<forall>d \<in> set ds. f d = g" "Q g \<longleftrightarrow> S g" by simp_all
  have "filter_mset (\<lambda>d. Q (f d)) (mset ds) = (if S g then mset ds else {#})"
  proof (cases "S g")
    case True
    with h have "\<forall>d \<in># mset ds. Q (f d)" by simp
    then have "filter_mset (\<lambda>d. Q (f d)) (mset ds) = mset ds"
      by (simp add: filter_mset_eq_conv)
    with True show ?thesis by simp
  next
    case False
    with h have "\<forall>d \<in># mset ds. \<not> Q (f d)" by simp
    then have "filter_mset (\<lambda>d. Q (f d)) (mset ds) = {#}"
      by (simp add: filter_mset_eq_conv)
    with False show ?thesis by simp
  qed
  moreover have "(\<Sum>p \<in># mset groups. if S (fst p) then mset (snd p) else {#})
       = filter_mset (\<lambda>d. Q (f d)) (mset (concat (map snd groups)))"
    using Cons.IH Cons.prems by simp
  ultimately show ?case using p by simp
qed

text \<open>
  Claim C1.  The documents that are classified and written are the input documents, one
  for one and in their order, each as the white space restorer leaves it when the
  restorer is switched on (\<open>restored\<close>), and as it is otherwise.  When the classifier
  succeeds on every one of them, \<open>indexNodes\<close> returns an index whose group names are
  distinct, whose groups are not empty, in which every document is in the group that the
  classifier names for it, and whose groups together hold those documents, each as often
  as the input does.  \<open>Write\<close> returns.  The world is observed through \<open>log\<close>, the list of
  the writes made: a factory and a \<open>Close\<close> leave it as it is, and a write of the byte
  writer, which is taken to succeed, adds the stream and the documents written.  \<open>factory\<close>
  tells the stream of each group, and \<open>order\<close> is any order in which \<open>range\<close> may yield the
  groups.  \<open>Write\<close> returns \<open>nil\<close> exactly when no factory fails for a group of the index;
  a group for which the factory returns no stream is no error.  Then the writes are one
  for each group that has a stream, with the documents of the group, and together they
  hold the documents whose group has a stream, each as often as the input does; the
  documents of the groups without a stream are the only ones left out.
\<close>

theorem GroupWriter_Write_partition:
  assumes cls: "\<forall>n \<in> set nodes. \<exists>p. groupNodeOf X w (restored w n) = Inr p"
    and ord: "\<forall>groups. mset (order groups) = mset groups"
    and wr: "\<forall>out bw ds s. fst (WriteTo X out bw ds s) = None
                 \<and> log (snd (WriteTo X out bw ds s)) = log s @ [(out, ds)]"
    and cl: "\<forall>out c s. Close X out = Some c \<longrightarrow> log (c s) = log s"
    and fac: "\<forall>name s. fst (groupWriterOf X w name s) = factory name
                 \<and> log (snd (groupWriterOf X w name s)) = log s"
  shows "\<exists>indexed r.
           prepared w nodes = map (restored w) nodes
         \<and> indexNodes (groupNodeOf X w) (map (restored w) nodes) = Some (Inr indexed)
         \<and> distinct (map fst indexed)
         \<and> (\<forall>(g, ds) \<in> set indexed.
               ds \<noteq> [] \<and> (\<forall>d \<in> set ds. groupOf (groupNodeOf X w) d = g))
         \<and> mset (concat (map snd indexed)) = mset (map (restored w) nodes)
         \<and> GroupWriter_Write order X w nodes s = Some r
         \<and> (fst r = None \<longleftrightarrow> (\<forall>(g, ds) \<in> set indexed. \<exists>h. factory g = Inr h))
         \<and> (fst r = None \<longrightarrow>
               log (snd r) = log s @ written factory (order indexed)
             \<and> mset (concat (map snd (written factory (order indexed))))
                 = mset (filter (\<lambda>d. factory (groupOf (groupNodeOf X w) d) \<noteq> Inr None)
                          (map (restored w) nodes)))"
proof -
  let ?f = "groupOf (groupNodeOf X w)"
  let ?ns = "map (restored w) nodes"
  have cls': "\<forall>n \<in> set ?ns. \<exists>p. groupNodeOf X w n = Inr p" using cls by simp
  from indexNodes_partition [OF cls']
  obtain indexed where ix: "indexNodes (groupNodeOf X w) ?ns = Some (Inr indexed)"
    and d: "distinct (map fst indexed)"
    and h: "\<forall>(g, ds) \<in> set indexed. ds \<noteq> [] \<and> (\<forall>d \<in> set ds. ?f d = g)"
    and m: "mset (concat (map snd indexed)) = mset ?ns"
    by blast
  let ?r = "writeGroups X w (order indexed) s"
  have run: "GroupWriter_Write order X w nodes s = Some ?r"
    using ix prepared_map [of w nodes]
    by (simp add: GroupWriter_Write_def prepared_def Let_def)
  have set_eq: "set (order indexed) = set indexed"
    using ord by (metis mset_eq_setD)
  have iff: "fst ?r = None \<longleftrightarrow> (\<forall>(g, ds) \<in> set indexed. \<exists>h. factory g = Inr h)"
  proof
    assume "fst ?r = None"
    from writeGroups_sinks [OF fac this] set_eq
    show "\<forall>(g, ds) \<in> set indexed. \<exists>h. factory g = Inr h" by simp
  next
    assume "\<forall>(g, ds) \<in> set indexed. \<exists>h. factory g = Inr h"
    then have "\<forall>(g, ds) \<in> set (order indexed). \<exists>h. factory g = Inr h"
      using set_eq by simp
    from writeGroups_ok [OF wr cl fac this] show "fst ?r = None" by simp
  qed
  have imp: "fst ?r = None \<longrightarrow>
               log (snd ?r) = log s @ written factory (order indexed)
             \<and> mset (concat (map snd (written factory (order indexed))))
                 = mset (filter (\<lambda>d. factory (?f d) \<noteq> Inr None) ?ns)"
  proof
    assume "fst ?r = None"
    with iff have sinks: "\<forall>(g, ds) \<in> set indexed. \<exists>h. factory g = Inr h" by simp
    then have "\<forall>(g, ds) \<in> set (order indexed). \<exists>h. factory g = Inr h"
      using set_eq by simp
    from writeGroups_ok [OF wr cl fac this]
    have s: "log (snd ?r) = log s @ written factory (order indexed)" by simp
    have hq: "\<forall>(g, ds) \<in> set indexed. (\<forall>d \<in> set ds. ?f d = g)
        \<and> ((factory g \<noteq> Inr None) \<longleftrightarrow> (\<exists>out. factory g = Inr (Some out)))"
    proof (intro ballI)
      fix p assume p: "p \<in> set indexed"
      obtain g ds where gds: "p = (g, ds)" by (cases p)
      from p gds sinks obtain r where "factory g = Inr r" by auto
      then have "(factory g \<noteq> Inr None) \<longleftrightarrow> (\<exists>out. factory g = Inr (Some out))"
        by (cases r) simp_all
      with h p gds show "case p of (g, ds) \<Rightarrow> (\<forall>d \<in> set ds. ?f d = g)
        \<and> ((factory g \<noteq> Inr None) \<longleftrightarrow> (\<exists>out. factory g = Inr (Some out)))"
        by auto
    qed
    have "mset (concat (map snd (written factory (order indexed))))
        = (\<Sum>p \<in># mset (order indexed).
            if \<exists>out. factory (fst p) = Inr (Some out) then mset (snd p) else {#})"
      by (rule written_documents)
    also have "\<dots> = (\<Sum>p \<in># mset indexed.
            if \<exists>out. factory (fst p) = Inr (Some out) then mset (snd p) else {#})"
      using ord by simp
    also have "\<dots> = filter_mset (\<lambda>d. factory (?f d) \<noteq> Inr None)
                       (mset (concat (map snd indexed)))"
      using homogeneous_filter [where f = ?f and Q = "\<lambda>g. factory g \<noteq> Inr None"
          and S = "\<lambda>g. \<exists>out. factory g = Inr (Some out)" and groups = indexed] hq
      by simp
    also have "\<dots> = mset (filter (\<lambda>d. factory (?f d) \<noteq> Inr None) ?ns)"
      by (simp only: m mset_filter)
    finally show "log (snd ?r) = log s @ written factory (order indexed)
             \<and> mset (concat (map snd (written factory (order indexed))))
                 = mset (filter (\<lambda>d. factory (?f d) \<noteq> Inr None) ?ns)"
      using s by simp
  qed
  show ?thesis
  proof (intro exI conjI)
    show "prepared w nodes = ?ns" by (rule prepared_map)
    show "indexNodes (groupNodeOf X w) ?ns = Some (Inr indexed)" by (rule ix)
    show "distinct (map fst indexed)" by (rule d)
    show "\<forall>(g, ds) \<in> set indexed. ds \<noteq> [] \<and> (\<forall>d \<in> set ds. ?f d = g)" by (rule h)
    show "mset (concat (map snd indexed)) = mset ?ns" by (rule m)
    show "GroupWriter_Write order X w nodes s = Some ?r" by (rule run)
    show "fst ?r = None \<longleftrightarrow> (\<forall>(g, ds) \<in> set indexed. \<exists>h. factory g = Inr h)" by (rule iff)
    show "fst ?r = None \<longrightarrow>
               log (snd ?r) = log s @ written factory (order indexed)
             \<and> mset (concat (map snd (written factory (order indexed))))
                 = mset (filter (\<lambda>d. factory (?f d) \<noteq> Inr None) ?ns)"
      by (rule imp)
  qed
qed
theorem GroupWriter_Write_partition_witness:
  "map (\<lambda>n. groupNodeOf files regrouping (restored regrouping n)) spaced_documents
     = [Inr (''f'', ''1''), Inr (''g'', ''2''), Inr (''f'', ''0''), Inr ([], ''0'')]
   \<and> (\<forall>groups :: (string \<times> RNode list) list. mset (rev groups) = mset groups)
   \<and> WriteTo files = (\<lambda>out w nodes s. (None, (fst s @ [(out, nodes)], snd s)))
   \<and> Close files = (\<lambda>out. Some (\<lambda>s. (fst s, snd s @ [out])))
   \<and> (\<forall>name s. groupWriterOf files regrouping name s = (named_streams name, s))
   \<and> GroupWriter.RestoreVerticalWhiteSpace regrouping
   \<and> map (restored regrouping) spaced_documents
       = [respaced ''A'' ''f'' ''1'', respaced ''B'' ''g'' ''2'', respaced ''C'' ''f'' ''0'',
          respaced ''D'' [] ''0'']
   \<and> GroupWriter_Write rev files regrouping spaced_documents ([], [])
       = Some (None, ([(''g'', [respaced ''B'' ''g'' ''2'']),
                       (''f'', [respaced ''C'' ''f'' ''0'', respaced ''A'' ''f'' ''1''])],
                      [''g'', ''f'']))
   \<and> mset [respaced ''B'' ''g'' ''2'', respaced ''C'' ''f'' ''0'', respaced ''A'' ''f'' ''1'']
       = mset (filter (\<lambda>d. named_streams (groupOf (groupNodeOf files regrouping) d) \<noteq> Inr None)
                 (map (restored regrouping) spaced_documents))"
proof -
  have c: "map (\<lambda>n. groupNodeOf files regrouping (restored regrouping n)) spaced_documents
     = [Inr (''f'', ''1''), Inr (''g'', ''2''), Inr (''f'', ''0''), Inr ([], ''0'')]"
    by code_simp
  have cls: "\<forall>n \<in> set spaced_documents.
               \<exists>p. groupNodeOf files regrouping (restored regrouping n) = Inr p"
  proof
    fix n assume "n \<in> set spaced_documents"
    then have "groupNodeOf files regrouping (restored regrouping n)
        \<in> set (map (\<lambda>n. groupNodeOf files regrouping (restored regrouping n)) spaced_documents)"
      by simp
    then show "\<exists>p. groupNodeOf files regrouping (restored regrouping n) = Inr p"
      unfolding c by auto
  qed
  have ord: "\<forall>groups :: (string \<times> RNode list) list. mset (rev groups) = mset groups" by simp
  have wt: "WriteTo files = (\<lambda>out w nodes s. (None, (fst s @ [(out, nodes)], snd s)))"
    by (simp add: files_def)
  have ct: "Close files = (\<lambda>out. Some (\<lambda>s. (fst s, snd s @ [out])))"
    by (simp add: files_def)
  have wr: "\<forall>out bw ds s. fst (WriteTo files out bw ds s) = None
                 \<and> fst (snd (WriteTo files out bw ds s)) = fst s @ [(out, ds)]"
    by (simp add: wt)
  have cl: "\<forall>out c s. Close files out = Some c \<longrightarrow> fst (c s) = fst s"
    by (auto simp: ct)
  have fac': "\<forall>name s. groupWriterOf files regrouping name s = (named_streams name, s)"
    by (simp add: groupWriterOf_def regrouping_def files_def named_streams_def)
  have fac: "\<forall>name s. fst (groupWriterOf files regrouping name s) = named_streams name
                 \<and> fst (snd (groupWriterOf files regrouping name s)) = fst s"
    by (simp add: fac')
  have flag: "GroupWriter.RestoreVerticalWhiteSpace regrouping" by (simp add: regrouping_def)
  have rs: "map (restored regrouping) spaced_documents
       = [respaced ''A'' ''f'' ''1'', respaced ''B'' ''g'' ''2'', respaced ''C'' ''f'' ''0'',
          respaced ''D'' [] ''0'']"
    by code_simp
  have run: "GroupWriter_Write rev files regrouping spaced_documents ([], [])
       = Some (None, ([(''g'', [respaced ''B'' ''g'' ''2'']),
                       (''f'', [respaced ''C'' ''f'' ''0'', respaced ''A'' ''f'' ''1''])],
                      [''g'', ''f'']))"
    by code_simp
  from GroupWriter_Write_partition [OF cls ord wr cl fac, of "([], [])"] run
  obtain indexed where
    l: "[(''g'', [respaced ''B'' ''g'' ''2'']),
         (''f'', [respaced ''C'' ''f'' ''0'', respaced ''A'' ''f'' ''1''])]
        = written named_streams (rev indexed)"
    and e: "mset (concat (map snd (written named_streams (rev indexed))))
       = mset (filter (\<lambda>d. named_streams (groupOf (groupNodeOf files regrouping) d) \<noteq> Inr None)
                 (map (restored regrouping) spaced_documents))"
    by auto
  have "mset [respaced ''B'' ''g'' ''2'', respaced ''C'' ''f'' ''0'', respaced ''A'' ''f'' ''1'']
       = mset (filter (\<lambda>d. named_streams (groupOf (groupNodeOf files regrouping) d) \<noteq> Inr None)
                 (map (restored regrouping) spaced_documents))"
    using e unfolding l [symmetric] by simp
  with c ord wt ct fac' flag rs run show ?thesis by (intro conjI)
qed

end
